theory Spec2Isabelle
  imports Main "HOL-Library.Finite_Map" "HOL-Library.Multiset"
begin

section \<open>Data model\<close>

text \<open>
  A job posting is a Python dict. The keys the verified functions read are fields of
  the record below; a field is \<open>None\<close> when the key is absent, \<open>Some PNone\<close> when
  the key holds Python's \<open>None\<close>, and \<open>Some (PStr s)\<close> when it holds a string. All
  remaining keys (id, salary, skills, ...) are kept in the finite map \<open>other\<close>, so
  that equality of two records is equality of the two dicts. Strings are ASCII. Float-valued text fields
  (the NaN that pandas writes for a missing cell) are outside the model.
\<close>

datatype pyval = PNone | PStr string

type_synonym vec = "rat list"

record job =
  title :: "pyval option"
  company :: "pyval option"
  location :: "pyval option"
  description :: "pyval option"
  redirect_url :: "pyval option"
  job_type :: "pyval option"
  created :: "pyval option"
  parsed_date :: "int option"
  inferred_type :: "bool option"
  similarity_score :: "rat option"
  other :: "(string, pyval) fmap"

text \<open>
  \<open>JobVectorStore\<close>: the FAISS \<open>IndexFlatL2\<close> is the list of the vectors added so far,
  in insertion order (position \<open>i\<close> of the index is element \<open>i\<close> of the list);
  \<open>job_ids_map\<close> is the dict from index positions to positions of \<open>jobs\<close>.
\<close>

record store =
  index :: "vec list"
  jobs :: "job list"
  job_ids_map :: "nat \<rightharpoonup> nat"
  vector_dir :: string

definition init_store :: "string \<Rightarrow> store" where
  "init_store vdir = \<lparr>index = [], jobs = [], job_ids_map = Map.empty, vector_dir = vdir\<rparr>"

text \<open>The empty dict.\<close>

definition empty_job :: job where
  "empty_job = \<lparr>title = None, company = None, location = None, description = None,
     redirect_url = None, job_type = None, created = None, parsed_date = None,
     inferred_type = None, similarity_score = None, other = fmempty\<rparr>"

section \<open>Adding records\<close>

text \<open>\<open>str(v)\<close> as an f-string prints it, and \<open>job.get(key, '')\<close> inside an f-string.\<close>

fun py_str :: "pyval \<Rightarrow> string" where
  "py_str PNone = ''None''"
| "py_str (PStr s) = s"

definition fmt_get :: "pyval option \<Rightarrow> string" where
  "fmt_get f = (case f of None \<Rightarrow> '''' | Some v \<Rightarrow> py_str v)"

definition canonical_text :: "job \<Rightarrow> string" where
  "canonical_text j =
     ''Title: '' @ fmt_get (title j) @ '' '' @
     ''Company: '' @ fmt_get (company j) @ '' '' @
     ''Location: '' @ fmt_get (location j) @ '' '' @
     ''Description: '' @ fmt_get (description j)"

text \<open>
  The embedding provider \<open>enc\<close> (\<open>self.model.encode\<close>) is a parameter: it maps a text
  to a vector, or to \<open>None\<close> when the request raises.
\<close>

definition create_job_vector :: "(string \<Rightarrow> vec option) \<Rightarrow> job \<Rightarrow> vec option" where
  "create_job_vector enc j = enc (canonical_text j)"

text \<open>
  The loop of \<open>add_jobs_from_dataframe\<close>. Its state is \<open>(vectors, valid_jobs,
  job_ids_map, added)\<close>; \<open>cur\<close> is \<open>current_index = len(self.jobs)\<close> taken before the
  loop. A record whose embedding raises is caught by the \<open>except\<close> and leaves the state
  as it is.
\<close>

fun add_loop :: "(string \<Rightarrow> vec option) \<Rightarrow> nat \<Rightarrow> job list \<Rightarrow>
    vec list \<times> job list \<times> (nat \<rightharpoonup> nat) \<times> nat \<Rightarrow> vec list \<times> job list \<times> (nat \<rightharpoonup> nat) \<times> nat" where
  "add_loop enc cur [] st = st"
| "add_loop enc cur (j # js) (vectors, valid_jobs, m, added) =
     (case create_job_vector enc j of
        None \<Rightarrow> add_loop enc cur js (vectors, valid_jobs, m, added)
      | Some v \<Rightarrow> add_loop enc cur js
          (vectors @ [v], valid_jobs @ [j], m(cur + added \<mapsto> cur + added), added + 1))"

definition add_jobs_from_dataframe :: "(string \<Rightarrow> vec option) \<Rightarrow> store \<Rightarrow> job list \<Rightarrow> nat \<times> store" where
  "add_jobs_from_dataframe enc s jobs_to_add =
     (let current_index = length (jobs s);
          (vectors, valid_jobs, m, added) =
             add_loop enc current_index jobs_to_add ([], [], job_ids_map s, 0);
          s1 = s\<lparr>job_ids_map := m\<rparr>
      in if added > 0
         then (added, s1\<lparr>index := index s1 @ vectors, jobs := jobs s1 @ valid_jobs\<rparr>)
         else (added, s1))"

text \<open>A sequence of batches, added one after the other.\<close>

definition add_batches :: "(string \<Rightarrow> vec option) \<Rightarrow> store \<Rightarrow> job list list \<Rightarrow> store" where
  "add_batches enc s bs = foldl (\<lambda>s b. snd (add_jobs_from_dataframe enc s b)) s bs"

text \<open>
  The alignment invariant: the index and the record list have the same length, and
  every index position is mapped to a record whose embedding is the vector there.
\<close>

definition aligned :: "(string \<Rightarrow> vec option) \<Rightarrow> store \<Rightarrow> bool" where
  "aligned enc s \<longleftrightarrow>
     length (index s) = length (jobs s) \<and>
     (\<forall>i < length (index s).
        case job_ids_map s i of
          None \<Rightarrow> False
        | Some p \<Rightarrow> p < length (jobs s) \<and> create_job_vector enc (jobs s ! p) = Some (index s ! i))"

definition embeddable :: "(string \<Rightarrow> vec option) \<Rightarrow> job \<Rightarrow> bool" where
  "embeddable enc j \<longleftrightarrow> create_job_vector enc j \<noteq> None"

section \<open>Similarity search\<close>

text \<open>
  \<open>faiss.IndexFlatL2.search(x, k)\<close>: the exact squared Euclidean distance from the
  query to every stored vector, the \<open>k\<close> nearest positions by ascending distance,
  padded with position \<open>-1\<close> when the index holds fewer than \<open>k\<close> vectors. The
  binding asserts \<open>k > 0\<close>; the failed assertion is the result \<open>None\<close>. Distances
  and scores are rationals: rounding to floats is not modelled.
\<close>

definition l2sq :: "vec \<Rightarrow> vec \<Rightarrow> rat" where
  "l2sq a b = sum_list (map (\<lambda>(x, y). (x - y) * (x - y)) (zip a b))"

definition pad_entry :: "rat \<times> int" where
  "pad_entry = (340282346638528859811704183484516925440, - 1)"

definition faiss_search :: "vec list \<Rightarrow> vec \<Rightarrow> nat \<Rightarrow> (rat \<times> int) list option" where
  "faiss_search idx q k =
     (if k = 0 then None
      else let ranked = sort_key fst (map (\<lambda>i. (l2sq q (idx ! i), int i)) [0 ..< length idx])
           in Some (take k ranked @ replicate (k - length idx) pad_entry))"

text \<open>\<open>filter_fn and not filter_fn(job)\<close> is false when no filter is given.\<close>

definition rejects :: "(job \<Rightarrow> bool) option \<Rightarrow> job \<Rightarrow> bool" where
  "rejects filter_fn j = (case filter_fn of None \<Rightarrow> False | Some f \<Rightarrow> \<not> f j)"

text \<open>
  The result loop of \<open>search_similar_jobs\<close> over \<open>zip(distances[0], indices[0])\<close>,
  with its three \<open>continue\<close>s and its \<open>break\<close>.
\<close>

fun scan :: "store \<Rightarrow> nat \<Rightarrow> (job \<Rightarrow> bool) option \<Rightarrow> (rat \<times> int) list \<Rightarrow> job list \<Rightarrow> job list" where
  "scan s k filter_fn [] results = results"
| "scan s k filter_fn ((dst, idx) # rest) results =
     (if idx < 0 \<or> idx \<ge> int (length (jobs s)) then scan s k filter_fn rest results
      else case job_ids_map s (nat idx) of
        None \<Rightarrow> scan s k filter_fn rest results
      | Some job_id \<Rightarrow>
          if job_id \<ge> length (jobs s) then scan s k filter_fn rest results
          else let j = (jobs s ! job_id)\<lparr>similarity_score := Some (1 / (1 + dst))\<rparr>
               in if rejects filter_fn j then scan s k filter_fn rest results
                  else if length (results @ [j]) \<ge> k then results @ [j]
                  else scan s k filter_fn rest (results @ [j]))"

subsection \<open>The keyword fallback\<close>

text \<open>\<open>str.lower()\<close> and \<open>str.isspace()\<close> on ASCII characters.\<close>

definition lower_char :: "char \<Rightarrow> char" where
  "lower_char c =
     (case map_of (zip ''ABCDEFGHIJKLMNOPQRSTUVWXYZ'' ''abcdefghijklmnopqrstuvwxyz'') c of
        None \<Rightarrow> c | Some l \<Rightarrow> l)"

definition lower :: "string \<Rightarrow> string" where
  "lower s = map lower_char s"

definition is_space :: "char \<Rightarrow> bool" where
  "is_space c \<longleftrightarrow>
     c \<in> set [CHR 0x09, CHR 0x0A, CHR 0x0B, CHR 0x0C, CHR 0x0D,
                CHR 0x1C, CHR 0x1D, CHR 0x1E, CHR 0x1F, CHR '' '']"

text \<open>\<open>str.split()\<close>: the maximal runs of non-whitespace characters; \<open>w\<close> is the run being read.\<close>

fun split_ws :: "string \<Rightarrow> string \<Rightarrow> string list" where
  "split_ws w [] = (if w = [] then [] else [w])"
| "split_ws w (c # cs) =
     (if is_space c then (if w = [] then split_ws [] cs else w # split_ws [] cs)
      else split_ws (w @ [c]) cs)"

definition split :: "string \<Rightarrow> string list" where
  "split s = split_ws [] s"

fun starts_with :: "string \<Rightarrow> string \<Rightarrow> bool" where
  "starts_with [] t = True"
| "starts_with (c # cs) [] = False"
| "starts_with (c # cs) (d # ds) = (c = d \<and> starts_with cs ds)"

text \<open>\<open>term in text\<close> on strings.\<close>

fun str_in :: "string \<Rightarrow> string \<Rightarrow> bool" where
  "str_in t [] = (t = [])"
| "str_in t (c # cs) = (starts_with t (c # cs) \<or> str_in t cs)"

text \<open>
  \<open>random.sample(population, m)\<close> draws \<open>m\<close> positions without replacement; the
  numbers the generator returns are the parameter \<open>rs\<close> (an exhausted list reads as 0).
  After a draw CPython moves the last element of the pool into the position drawn,
  where this function closes the gap: the samples that can be drawn are the same, the
  sample that a given sequence of numbers produces need not be. What is proved of
  the sample below, its length and that its elements are elements of the pool, does
  not depend on the numbers drawn.
\<close>

fun random_sample :: "'a list \<Rightarrow> nat \<Rightarrow> nat list \<Rightarrow> 'a list" where
  "random_sample pool 0 rs = []"
| "random_sample [] (Suc m) rs = []"
| "random_sample (x # xs) (Suc m) rs =
     (let r = (case rs of [] \<Rightarrow> 0 | r # _ \<Rightarrow> r mod length (x # xs))
      in (x # xs) ! r # random_sample (take r (x # xs) @ drop (Suc r) (x # xs)) m (tl rs))"

definition get_score :: "job \<Rightarrow> rat" where
  "get_score j = (case similarity_score j of None \<Rightarrow> 0 | Some r \<Rightarrow> r)"

definition job_text :: "job \<Rightarrow> string" where
  "job_text j = lower (fmt_get (title j) @ '' '' @ fmt_get (company j) @ '' '' @
                       fmt_get (description j))"

definition match_score :: "string list \<Rightarrow> job \<Rightarrow> nat" where
  "match_score query_terms j = length (filter (\<lambda>t. str_in t (job_text j)) query_terms)"

text \<open>The scoring loop of \<open>_fallback_search\<close>.\<close>

fun score_jobs :: "string list \<Rightarrow> (job \<Rightarrow> bool) option \<Rightarrow> job list \<Rightarrow> job list" where
  "score_jobs query_terms filter_fn [] = []"
| "score_jobs query_terms filter_fn (j # js) =
     (if rejects filter_fn j then score_jobs query_terms filter_fn js
      else if match_score query_terms j > 0 \<or> query_terms = []
      then j\<lparr>similarity_score :=
               Some (of_nat (match_score query_terms j) / of_nat (max 1 (length query_terms)))\<rparr>
           # score_jobs query_terms filter_fn js
      else score_jobs query_terms filter_fn js)"

text \<open>
  \<open>list.sort(key, reverse=True)\<close> is stable: descending keys, equal keys in their
  original order.
\<close>

definition sort_desc :: "job list \<Rightarrow> job list" where
  "sort_desc js = sort_key (\<lambda>j. - get_score j) js"

definition fallback_search :: "store \<Rightarrow> string \<Rightarrow> nat \<Rightarrow> (job \<Rightarrow> bool) option \<Rightarrow> nat list \<Rightarrow> job list" where
  "fallback_search s query k filter_fn rs =
     (let query_terms = split (lower query);
          scored_jobs = sort_desc (score_jobs query_terms filter_fn (jobs s));
          scored_jobs =
            (if scored_jobs = []
             then map (\<lambda>j. j\<lparr>similarity_score := Some (1 / 10)\<rparr>)
                    (random_sample (jobs s) (min k (length (jobs s))) rs)
             else scored_jobs)
      in take k scored_jobs)"

text \<open>
  \<open>search_similar_jobs\<close>. An exception inside the \<open>try\<close> (the provider raising on the
  query, the failed assertion of the index search) goes to the fallback, as an empty
  result list does.
\<close>

definition search_similar_jobs ::
    "(string \<Rightarrow> vec option) \<Rightarrow> store \<Rightarrow> string \<Rightarrow> nat \<Rightarrow> (job \<Rightarrow> bool) option \<Rightarrow> nat list \<Rightarrow> job list" where
  "search_similar_jobs enc s query k filter_fn rs =
     (if jobs s = [] then []
      else case enc query of
        None \<Rightarrow> fallback_search s query k filter_fn rs
      | Some query_vector \<Rightarrow>
          (case faiss_search (index s) query_vector
                  (case filter_fn of None \<Rightarrow> k | Some _ \<Rightarrow> min (k * 5) (length (jobs s))) of
             None \<Rightarrow> fallback_search s query k filter_fn rs
           | Some found \<Rightarrow>
               let results = scan s k filter_fn found []
               in if results \<noteq> [] then results
                  else fallback_search s query k filter_fn rs))"

section \<open>Persistence\<close>

text \<open>
  The file system maps a path to what the file holds: a serialized index, a pickled
  pair \<open>(jobs, job_ids_map)\<close>, or bytes that neither reader accepts (\<open>Unreadable\<close>).
  \<open>writable\<close> tells for which paths opening the file for writing succeeds.
\<close>

datatype artifact = IndexFile "vec list" | DataFile "job list" "nat \<rightharpoonup> nat" | Unreadable

type_synonym filesystem = "string \<rightharpoonup> artifact"

text \<open>\<open>os.path.join\<close> of two components (POSIX).\<close>

definition path_join :: "string \<Rightarrow> string \<Rightarrow> string" where
  "path_join a b =
     (if b \<noteq> [] \<and> hd b = CHR ''/'' then b
      else if a = [] \<or> last a = CHR ''/'' then a @ b
      else a @ ''/'' @ b)"

definition read_index :: "filesystem \<Rightarrow> string \<Rightarrow> vec list option" where
  "read_index fs path = (case fs path of Some (IndexFile vs) \<Rightarrow> Some vs | _ \<Rightarrow> None)"

definition pickle_load :: "filesystem \<Rightarrow> string \<Rightarrow> (job list \<times> (nat \<rightharpoonup> nat)) option" where
  "pickle_load fs path = (case fs path of Some (DataFile js m) \<Rightarrow> Some (js, m) | _ \<Rightarrow> None)"

text \<open>
  \<open>save\<close> returns its boolean and the file system after the call: the index file is
  written first, the data file second, and an exception at either write returns
  \<open>False\<close>.
\<close>

definition save :: "store \<Rightarrow> filesystem \<Rightarrow> (string \<Rightarrow> bool) \<Rightarrow> string \<Rightarrow> bool \<times> filesystem" where
  "save s fs writable base_filename =
     (let index_path = path_join (vector_dir s) (base_filename @ ''.index'');
          data_path = path_join (vector_dir s) (base_filename @ ''.pkl'')
      in if \<not> writable index_path then (False, fs)
         else let fs1 = fs(index_path \<mapsto> IndexFile (index s))
              in if \<not> writable data_path then (False, fs1)
                 else (True, fs1(data_path \<mapsto> DataFile (jobs s) (job_ids_map s))))"

text \<open>
  \<open>load\<close> returns its boolean and the store after the call. \<open>self.index\<close> is assigned
  as soon as \<open>faiss.read_index\<close> returns; \<open>self.jobs, self.job_ids_map\<close> are assigned
  after \<open>pickle.load\<close> returns; an exception at either read is caught and returns
  \<open>False\<close>.
\<close>

definition load :: "store \<Rightarrow> filesystem \<Rightarrow> string \<Rightarrow> bool \<times> store" where
  "load s fs base_filename =
     (let index_path = path_join (vector_dir s) (base_filename @ ''.index'');
          data_path = path_join (vector_dir s) (base_filename @ ''.pkl'')
      in if fs index_path = None \<or> fs data_path = None then (False, s)
         else case read_index fs index_path of
           None \<Rightarrow> (False, s)
         | Some vs \<Rightarrow>
             let s1 = s\<lparr>index := vs\<rparr>
             in (case pickle_load fs data_path of
                   None \<Rightarrow> (False, s1)
                 | Some (js, m) \<Rightarrow> (True, s1\<lparr>jobs := js, job_ids_map := m\<rparr>)))"

text \<open>
  What one entry of the distance-ranked list contributes to the result loop: the
  record copy with its score, or nothing when the loop skips the entry as invalid.
  \<open>matches\<close> are the valid entries that the filter accepts, in ranked order.
\<close>

definition candidate :: "store \<Rightarrow> rat \<times> int \<Rightarrow> job option" where
  "candidate s e =
     (case e of (dst, idx) \<Rightarrow>
        if idx < 0 \<or> idx \<ge> int (length (jobs s)) then None
        else case job_ids_map s (nat idx) of
          None \<Rightarrow> None
        | Some job_id \<Rightarrow>
            if job_id \<ge> length (jobs s) then None
            else Some ((jobs s ! job_id)\<lparr>similarity_score := Some (1 / (1 + dst))\<rparr>))"

definition matches :: "store \<Rightarrow> (job \<Rightarrow> bool) option \<Rightarrow> (rat \<times> int) list \<Rightarrow> job list" where
  "matches s filter_fn found =
     filter (\<lambda>j. \<not> rejects filter_fn j) (List.map_filter (candidate s) found)"

text \<open>A result list is in descending order of \<open>similarity_score\<close>.\<close>

definition desc_scores :: "job list \<Rightarrow> bool" where
  "desc_scores js = sorted_wrt (\<lambda>a b. get_score a \<ge> get_score b) js"

text \<open>
  A store of one record that no query word matches, built through
  \<open>add_jobs_from_dataframe\<close>, and a provider that embeds records and raises on the
  query \<open>''x''\<close>.
\<close>

definition nurse_job :: job where
  "nurse_job = empty_job\<lparr>title := Some (PStr ''Nurse'')\<rparr>"

definition no_x_enc :: "string \<Rightarrow> vec option" where
  "no_x_enc t = (if t = ''x'' then None else Some [of_nat (length t)])"

definition one_store :: store where
  "one_store = snd (add_jobs_from_dataframe no_x_enc (init_store ''vs'') [nurse_job])"

section \<open>Example inputs\<close>

text \<open>A provider that raises on texts of 50 characters or more.\<close>

definition short_enc :: "string \<Rightarrow> vec option" where
  "short_enc t = (if length t < 50 then Some [of_nat (length t)] else None)"

text \<open>A snapshot whose index file is readable and whose data file is not.\<close>

definition half_snapshot :: filesystem where
  "half_snapshot = [''vs/snap.index'' \<mapsto> IndexFile [[1, 2]], ''vs/snap.pkl'' \<mapsto> Unreadable]"

text \<open>A filter that only a record titled \<open>Doctor\<close> passes.\<close>

definition doctor_filter :: "job \<Rightarrow> bool" where
  "doctor_filter j \<longleftrightarrow> title j = Some (PStr ''Doctor'')"

text \<open>
  A store of eleven records, titled with 0 to 10 letters, under a provider that embeds
  a text as its length; the query \<open>''q''\<close> is nearest to the shortest title. The
  filter accepts the first and the last record only.
\<close>

definition len_enc :: "string \<Rightarrow> vec option" where
  "len_enc t = Some [of_nat (length t)]"

definition titled :: "string \<Rightarrow> job" where
  "titled t = empty_job\<lparr>title := Some (PStr t)\<rparr>"

definition eleven_titles :: "string list" where
  "eleven_titles = ['''', ''a'', ''aa'', ''aaa'', ''aaaa'', ''aaaaa'', ''aaaaaa'', ''aaaaaaa'',
                    ''aaaaaaaa'', ''aaaaaaaaa'', ''aaaaaaaaaa'']"

definition eleven_store :: store where
  "eleven_store =
     snd (add_jobs_from_dataframe len_enc (init_store ''vs'') (map titled eleven_titles))"

definition ends_filter :: "job \<Rightarrow> bool" where
  "ends_filter j \<longleftrightarrow> title j = Some (PStr '''') \<or> title j = Some (PStr ''aaaaaaaaaa'')"

section \<open>Duplicate detection\<close>

subsection \<open>\<open>difflib.SequenceMatcher(None, a, b).ratio()\<close>\<close>

text \<open>
  The standard library's matcher, with no junk predicate and \<open>autojunk\<close> left on.
  \<open>b2j b c\<close> lists the positions of \<open>c\<close> in \<open>b\<close> in ascending order; for a \<open>b\<close> of 200
  characters or more, a character that fills more than \<open>1 + len(b) // 100\<close> positions is
  popular and has no entry.
\<close>

definition b2j :: "string \<Rightarrow> char \<Rightarrow> nat list" where
  "b2j b c =
     (let idxs = filter (\<lambda>j. b ! j = c) [0 ..< length b]
      in if length b \<ge> 200 \<and> length idxs > length b div 100 + 1 then [] else idxs)"

text \<open>
  The inner loop of \<open>find_longest_match\<close> for row \<open>i\<close>. The dicts \<open>j2len\<close> and
  \<open>newj2len\<close> are functions that are 0 where the dict has no key (every stored length
  is positive, and \<open>j2len.get(j-1, 0)\<close> reads 0 for a missing key, also for \<open>j = 0\<close>).
\<close>

fun fill_row :: "nat \<Rightarrow> nat \<Rightarrow> nat \<Rightarrow> (nat \<Rightarrow> nat) \<Rightarrow> nat list \<Rightarrow>
    (nat \<Rightarrow> nat) \<times> nat \<times> nat \<times> nat \<Rightarrow> (nat \<Rightarrow> nat) \<times> nat \<times> nat \<times> nat" where
  "fill_row blo bhi i j2len [] st = st"
| "fill_row blo bhi i j2len (j # js) (newj2len, besti, bestj, bestsize) =
     (if j < blo then fill_row blo bhi i j2len js (newj2len, besti, bestj, bestsize)
      else if j \<ge> bhi then (newj2len, besti, bestj, bestsize)
      else let k = (if j = 0 then 0 else j2len (j - 1)) + 1
           in if k > bestsize
              then fill_row blo bhi i j2len js (newj2len(j := k), i + 1 - k, j + 1 - k, k)
              else fill_row blo bhi i j2len js (newj2len(j := k), besti, bestj, bestsize))"

text \<open>The outer loop \<open>for i in range(alo, ahi)\<close>, over the list of its indices.\<close>

fun fill_rows :: "string \<Rightarrow> string \<Rightarrow> nat \<Rightarrow> nat \<Rightarrow> nat list \<Rightarrow>
    (nat \<Rightarrow> nat) \<times> nat \<times> nat \<times> nat \<Rightarrow> (nat \<Rightarrow> nat) \<times> nat \<times> nat \<times> nat" where
  "fill_rows a b blo bhi [] st = st"
| "fill_rows a b blo bhi (i # is) (j2len, best) =
     fill_rows a b blo bhi is (fill_row blo bhi i j2len (b2j b (a ! i)) (\<lambda>j. 0, best))"

text \<open>
  The two \<open>while\<close> loops that extend the block over equal neighbours (no element is
  junk; the two loops over junk neighbours never run).
\<close>

function extend_back :: "string \<Rightarrow> string \<Rightarrow> nat \<Rightarrow> nat \<Rightarrow> nat \<times> nat \<times> nat \<Rightarrow> nat \<times> nat \<times> nat" where
  "extend_back a b alo blo (besti, bestj, bestsize) =
     (if besti > alo \<and> bestj > blo \<and> a ! (besti - 1) = b ! (bestj - 1)
      then extend_back a b alo blo (besti - 1, bestj - 1, bestsize + 1)
      else (besti, bestj, bestsize))"
  by pat_completeness auto
termination
  by (relation "measure (\<lambda>(a, b, alo, blo, besti, bestj, bestsize). besti)") auto

function extend_fwd :: "string \<Rightarrow> string \<Rightarrow> nat \<Rightarrow> nat \<Rightarrow> nat \<times> nat \<times> nat \<Rightarrow> nat \<times> nat \<times> nat" where
  "extend_fwd a b ahi bhi (besti, bestj, bestsize) =
     (if besti + bestsize < ahi \<and> bestj + bestsize < bhi \<and>
         a ! (besti + bestsize) = b ! (bestj + bestsize)
      then extend_fwd a b ahi bhi (besti, bestj, bestsize + 1)
      else (besti, bestj, bestsize))"
  by pat_completeness auto
termination
  by (relation "measure (\<lambda>(a, b, ahi, bhi, besti, bestj, bestsize). ahi - (besti + bestsize))") auto

definition find_longest_match :: "string \<Rightarrow> string \<Rightarrow> nat \<Rightarrow> nat \<Rightarrow> nat \<Rightarrow> nat \<Rightarrow> nat \<times> nat \<times> nat" where
  "find_longest_match a b alo ahi blo bhi =
     extend_fwd a b ahi bhi
       (extend_back a b alo blo
          (snd (fill_rows a b blo bhi [alo ..< ahi] (\<lambda>j. 0, alo, blo, 0))))"

section \<open>The longest match lies inside its window\<close>

lemma fill_row_inv:
  assumes "fill_row blo bhi i j2len js (new, bi, bj, bs) = (new', bi', bj', bs')"
    and "alo \<le> i" and "\<forall>j. j2len j \<le> i - alo" and "\<forall>j. new j \<le> Suc i - alo"
    and "alo \<le> bi" and "bi + bs \<le> Suc i"
  shows "(\<forall>j. new' j \<le> Suc i - alo) \<and> alo \<le> bi' \<and> bi' + bs' \<le> Suc i"
  using assms
proof (induction js arbitrary: new bi bj bs)
  case Nil
  then show ?case by simp
next
  case (Cons j js)
  show ?case
  proof (cases "j < blo")
    case True
    with Cons.prems(1) have "fill_row blo bhi i j2len js (new, bi, bj, bs) = (new', bi', bj', bs')"
      by simp
    from Cons.IH [OF this Cons.prems(2-6)] show ?thesis .
  next
    case lo: False
    show ?thesis
    proof (cases "j \<ge> bhi")
      case True
      with lo Cons.prems show ?thesis by simp
    next
      case hi: False
      define k where "k = (if j = 0 then 0 else j2len (j - 1)) + 1"
      from Cons.prems(3) have "j2len (j - 1) \<le> i - alo" by blast
      with Cons.prems(2) have k: "k \<le> Suc i - alo" "1 \<le> k"
        unfolding k_def by (simp_all split: if_splits) arith
      have new: "\<forall>x. (new(j := k)) x \<le> Suc i - alo"
        using Cons.prems(4) k by simp
      show ?thesis
      proof (cases "k > bs")
        case True
        with lo hi Cons.prems(1) have
          "fill_row blo bhi i j2len js (new(j := k), i + 1 - k, j + 1 - k, k) = (new', bi', bj', bs')"
          by (simp add: k_def Let_def)
        moreover have "alo \<le> i + 1 - k" "i + 1 - k + k \<le> Suc i"
          using k Cons.prems(2) by simp_all
        ultimately show ?thesis
          using Cons.IH [of "new(j := k)" "i + 1 - k" "j + 1 - k" k] Cons.prems(2,3) new
          by blast
      next
        case False
        with lo hi Cons.prems(1) have
          "fill_row blo bhi i j2len js (new(j := k), bi, bj, bs) = (new', bi', bj', bs')"
          by (simp add: k_def Let_def)
        then show ?thesis
          using Cons.IH [of "new(j := k)" bi bj bs] Cons.prems(2,3,5,6) new
          by blast
      qed
    qed
  qed
qed

lemma fill_rows_inv:
  assumes "fill_rows a b blo bhi [i ..< ahi] (j2len, bi, bj, bs) = (j2len', bi', bj', bs')"
    and "alo \<le> i" and "i \<le> ahi" and "\<forall>j. j2len j \<le> i - alo"
    and "alo \<le> bi" and "bi + bs \<le> i"
  shows "alo \<le> bi' \<and> bi' + bs' \<le> ahi"
  using assms
proof (induction "ahi - i" arbitrary: i j2len bi bj bs)
  case 0
  then show ?case by simp
next
  case (Suc n)
  then have lt: "i < ahi" by simp
  obtain new1 bi1 bj1 bs1 where
    row: "fill_row blo bhi i j2len (b2j b (a ! i)) (\<lambda>j. 0, bi, bj, bs) = (new1, bi1, bj1, bs1)"
    by (metis prod_cases4)
  from Suc.prems(6) have "bi + bs \<le> Suc i" by simp
  from fill_row_inv [OF row Suc.prems(2) Suc.prems(4) _ Suc.prems(5) this]
  have r: "\<forall>j. new1 j \<le> Suc i - alo" "alo \<le> bi1" "bi1 + bs1 \<le> Suc i"
    by simp_all
  from Suc.prems(1) lt row have
    "fill_rows a b blo bhi [Suc i ..< ahi] (new1, bi1, bj1, bs1) = (j2len', bi', bj', bs')"
    by (simp add: upt_conv_Cons)
  moreover from Suc.hyps(2) have "n = ahi - Suc i" by simp
  moreover from Suc.prems(2) have "alo \<le> Suc i" by simp
  moreover from lt have "Suc i \<le> ahi" by simp
  ultimately show ?case using Suc.hyps(1) r by blast
qed

lemma extend_back_inv:
  "extend_back a b alo blo (bi, bj, bs) = (bi', bj', bs') \<Longrightarrow> alo \<le> bi \<Longrightarrow> bi + bs \<le> ahi \<Longrightarrow>
   alo \<le> bi' \<and> bi' + bs' \<le> ahi \<and> bs \<le> bs'"
proof (induction a b alo blo "(bi, bj, bs)" arbitrary: bi bj bs rule: extend_back.induct)
  case (1 a b alo blo besti bestj bestsize)
  show ?case
  proof (cases "besti > alo \<and> bestj > blo \<and> a ! (besti - 1) = b ! (bestj - 1)")
    case True
    with "1.prems"(1) have
      "extend_back a b alo blo (besti - 1, bestj - 1, bestsize + 1) = (bi', bj', bs')"
      by simp
    from "1.hyps" [OF True this] True "1.prems"(2,3) show ?thesis by force
  next
    case False
    with "1.prems" show ?thesis by auto
  qed
qed

lemma extend_fwd_inv:
  "extend_fwd a b ahi bhi (bi, bj, bs) = (bi', bj', bs') \<Longrightarrow> bi + bs \<le> ahi \<Longrightarrow>
   bi' = bi \<and> bi' + bs' \<le> ahi \<and> bs \<le> bs'"
proof (induction a b ahi bhi "(bi, bj, bs)" arbitrary: bi bj bs rule: extend_fwd.induct)
  case (1 a b ahi bhi besti bestj bestsize)
  show ?case
  proof (cases "besti + bestsize < ahi \<and> bestj + bestsize < bhi \<and>
                a ! (besti + bestsize) = b ! (bestj + bestsize)")
    case True
    with "1.prems"(1) have
      "extend_fwd a b ahi bhi (besti, bestj, bestsize + 1) = (bi', bj', bs')"
      by simp
    from "1.hyps" [OF True this] True show ?thesis by simp
  next
    case False
    with "1.prems" show ?thesis by auto
  qed
qed

lemma find_longest_match_bounds:
  assumes "find_longest_match a b alo ahi blo bhi = (i, j, k)" and "k \<noteq> 0"
  shows "alo \<le> i \<and> i + k \<le> ahi"
proof (cases "alo \<le> ahi")
  case True
  obtain m0 i0 j0 k0 where
    rows: "fill_rows a b blo bhi [alo ..< ahi] (\<lambda>j. 0, alo, blo, 0) = (m0, i0, j0, k0)"
    by (metis prod_cases4)
  from fill_rows_inv [OF rows _ True, of alo] have b0: "alo \<le> i0" "i0 + k0 \<le> ahi"
    by simp_all
  obtain i1 j1 k1 where bk: "extend_back a b alo blo (i0, j0, k0) = (i1, j1, k1)"
    by (metis prod_cases3)
  from extend_back_inv [OF bk b0] have b1: "alo \<le> i1" "i1 + k1 \<le> ahi"
    by simp_all
  from assms(1) rows bk have "extend_fwd a b ahi bhi (i1, j1, k1) = (i, j, k)"
    by (simp add: find_longest_match_def)
  from extend_fwd_inv [OF this b1(2)] b1 show ?thesis by simp
next
  case False
  then have "[alo ..< ahi] = []" by simp
  with assms(1) False have "k = 0"
    by (simp add: find_longest_match_def)
  with assms(2) show ?thesis by simp
qed

subsection \<open>Matching blocks and the ratio\<close>

text \<open>
  The loop of \<open>get_matching_blocks\<close>. The work list is a stack whose top is the head
  of the list: the window pushed last (the one right of the match) is popped first.
  The blocks are collected in the order they are found; sorting them, merging adjacent
  ones and the final sentinel of size 0 do not change the sum of their sizes, which is
  all that \<open>ratio\<close> reads.
\<close>

function matching_loop :: "string \<Rightarrow> string \<Rightarrow> (nat \<times> nat \<times> nat \<times> nat) list \<Rightarrow>
    (nat \<times> nat \<times> nat) list \<Rightarrow> (nat \<times> nat \<times> nat) list" where
  "matching_loop a b [] matching_blocks = matching_blocks"
| "matching_loop a b ((alo, ahi, blo, bhi) # queue) matching_blocks =
     (case find_longest_match a b alo ahi blo bhi of
        (i, j, k) \<Rightarrow>
          if k \<noteq> 0
          then matching_loop a b
                 ((if i + k < ahi \<and> j + k < bhi then [(i + k, ahi, j + k, bhi)] else []) @
                  (if alo < i \<and> blo < j then [(alo, i, blo, j)] else []) @ queue)
                 (matching_blocks @ [(i, j, k)])
          else matching_loop a b queue matching_blocks)"
  by pat_completeness auto
termination
  apply (relation "measure (\<lambda>(a, b, queue, blocks).
         sum_list (map (\<lambda>(alo, ahi, blo, bhi). 2 * (ahi - alo) + 1) queue))")
    apply simp
  subgoal for a b alo ahi blo bhi queue matching_blocks i y j k
    using find_longest_match_bounds [of a b alo ahi blo bhi i j k]
    by auto
  subgoal by simp
  done

definition get_matching_blocks :: "string \<Rightarrow> string \<Rightarrow> (nat \<times> nat \<times> nat) list" where
  "get_matching_blocks a b = matching_loop a b [(0, length a, 0, length b)] []"

text \<open>
  \<open>ratio\<close> is \<open>2.0 * matches / length\<close>, as a rational. The float quotient of two
  integers is the correctly rounded rational, so the comparisons of the ratio with
  \<open>0.95\<close> and \<open>1.0\<close> agree with the comparisons of the rational with \<open>19 / 20\<close> and
  \<open>1\<close> for all strings of realistic length.
\<close>

definition ratio :: "string \<Rightarrow> string \<Rightarrow> rat" where
  "ratio a b =
     (let matches = sum_list (map (\<lambda>(i, j, k). k) (get_matching_blocks a b));
          len = length a + length b
      in if len \<noteq> 0 then 2 * of_nat matches / of_nat len else 1)"

subsection \<open>\<open>is_duplicate_job\<close> and \<open>remove_duplicate_jobs\<close>\<close>

text \<open>
  \<open>str(job.get(key, '')).lower() if job.get(key) is not None else ''\<close>: the empty
  string for an absent key and for \<open>None\<close>.
\<close>

definition field_lower :: "pyval option \<Rightarrow> string" where
  "field_lower f = (case f of Some (PStr s) \<Rightarrow> lower s | _ \<Rightarrow> '''')"

text \<open>\<open>is_duplicate_job\<close> with its default thresholds \<open>0.95\<close>.\<close>

definition is_duplicate_job :: "job \<Rightarrow> job \<Rightarrow> bool" where
  "is_duplicate_job job1 job2 =
     (let title1 = field_lower (title job1);
          title2 = field_lower (title job2);
          company1 = field_lower (company job1);
          company2 = field_lower (company job2)
      in if title1 = [] \<or> title2 = [] \<or> company1 = [] \<or> company2 = [] then False
         else let title_ratio = ratio title1 title2;
                  company_ratio = ratio company1 company2;
                  url1 = field_lower (redirect_url job1);
                  url2 = field_lower (redirect_url job2)
              in if url1 \<noteq> [] \<and> url2 \<noteq> [] \<and> url1 = url2 then True
                 else let location1 = field_lower (location job1);
                          location2 = field_lower (location job2);
                          same_location = (location1 = location2 \<and> location1 \<noteq> [])
                      in (title_ratio \<ge> 19 / 20 \<and> company_ratio \<ge> 19 / 20) \<or>
                         (title_ratio = 1 \<and> same_location))"

text \<open>
  The test \<open>len(jobs) - len(unique_jobs) > len(jobs) * 0.7\<close>. The product is a
  float: the double nearest to 0.7 is \<open>6305039478318694 / 2^53\<close>, and the product of
  \<open>n\<close> with it is rounded to 53 significant bits, ties to even. (So \<open>90 * 0.7\<close> is
  just below 63.) Python compares the integer on the left with that float exactly.
\<close>

fun bit_length :: "nat \<Rightarrow> nat" where
  "bit_length n = (if n = 0 then 0 else Suc (bit_length (n div 2)))"

definition round_to_53 :: "nat \<Rightarrow> nat" where
  "round_to_53 p =
     (let bl = bit_length p
      in if bl \<le> 53 then p
         else let sh = bl - 53;
                  q = p div 2 ^ sh;
                  r = p mod 2 ^ sh;
                  half = 2 ^ (sh - 1)
              in (if r > half \<or> (r = half \<and> odd q) then q + 1 else q) * 2 ^ sh)"

definition len_times_0_7 :: "nat \<Rightarrow> rat" where
  "len_times_0_7 n = of_nat (round_to_53 (n * 6305039478318694)) / 2 ^ 53"

definition too_many_removed :: "nat \<Rightarrow> nat \<Rightarrow> bool" where
  "too_many_removed n u \<longleftrightarrow> of_int (int n - int u) > len_times_0_7 n"

text \<open>
  The inner loop that adds records back: \<open>potential_job not in unique_jobs\<close> compares
  dicts by equality.
\<close>

fun readmit :: "nat \<Rightarrow> job list \<Rightarrow> job list \<Rightarrow> job list" where
  "readmit min_results [] unique_jobs = unique_jobs"
| "readmit min_results (potential_job # rest) unique_jobs =
     (if potential_job \<notin> set unique_jobs
      then if length (unique_jobs @ [potential_job]) \<ge> min_results
           then unique_jobs @ [potential_job]
           else readmit min_results rest (unique_jobs @ [potential_job])
      else readmit min_results rest unique_jobs)"

text \<open>The main loop; \<open>all_jobs\<close> is the input list, \<open>todo\<close> what is left of it.\<close>

fun dedup_loop :: "job list \<Rightarrow> nat \<Rightarrow> job list \<Rightarrow> job list \<Rightarrow> job list" where
  "dedup_loop all_jobs min_results [] unique_jobs = unique_jobs"
| "dedup_loop all_jobs min_results (job # todo) unique_jobs =
     (let unique_jobs =
            (if list_ex (\<lambda>existing_job. is_duplicate_job job existing_job) unique_jobs
             then unique_jobs else unique_jobs @ [job]);
          unique_jobs =
            (if length unique_jobs < min_results \<and>
                too_many_removed (length all_jobs) (length unique_jobs)
             then readmit min_results all_jobs unique_jobs else unique_jobs)
      in dedup_loop all_jobs min_results todo unique_jobs)"

definition remove_duplicate_jobs :: "job list \<Rightarrow> nat \<Rightarrow> job list" where
  "remove_duplicate_jobs all_jobs min_results =
     (if all_jobs = [] then []
      else if length all_jobs \<le> min_results then all_jobs
      else dedup_loop all_jobs min_results all_jobs [])"

text \<open>
  The records that \<open>readmit\<close> may add: the records of the list that are not in
  \<open>seen\<close>, each once, in the order of their first occurrence.
\<close>

fun first_new :: "job list \<Rightarrow> job list \<Rightarrow> job list" where
  "first_new seen [] = []"
| "first_new seen (p # ps) =
     (if p \<in> set seen then first_new seen ps else p # first_new (seen @ [p]) ps)"

text \<open>Four postings that share one URL, and a posting that has nothing but the URL.\<close>

definition posting :: "string \<Rightarrow> string \<Rightarrow> string \<Rightarrow> job" where
  "posting t c u =
     empty_job\<lparr>title := Some (PStr t), company := Some (PStr c), redirect_url := Some (PStr u)\<rparr>"

definition url_only_job :: job where
  "url_only_job = empty_job\<lparr>redirect_url := Some (PStr ''https://x.io/1'')\<rparr>"

text \<open>One iteration of the main loop of \<open>remove_duplicate_jobs\<close>, as a function of its own.\<close>

definition dedup_step :: "job list \<Rightarrow> nat \<Rightarrow> job \<Rightarrow> job list \<Rightarrow> job list" where
  "dedup_step all_jobs min_results job unique_jobs =
     (let unique_jobs =
            (if list_ex (\<lambda>existing_job. is_duplicate_job job existing_job) unique_jobs
             then unique_jobs else unique_jobs @ [job])
      in if length unique_jobs < min_results \<and>
            too_many_removed (length all_jobs) (length unique_jobs)
         then readmit min_results all_jobs unique_jobs else unique_jobs)"

section \<open>The retrieval pipeline\<close>

















text \<open>
  The position map of a store that was filled by \<open>add_jobs_from_dataframe\<close> only: one
  vector for each record, and every position mapped to itself.
\<close>

definition identity_mapped :: "store \<Rightarrow> bool" where
  "identity_mapped s \<longleftrightarrow>
     length (index s) = length (jobs s) \<and>
     (\<forall>i < length (jobs s). job_ids_map s i = Some i)"



text \<open>The stored positions by ascending distance, and the result made of one of them.\<close>

definition ranked :: "vec list \<Rightarrow> vec \<Rightarrow> (rat \<times> int) list" where
  "ranked idx q = sort_key fst (map (\<lambda>i. (l2sq q (idx ! i), int i)) [0 ..< length idx])"

definition scored :: "store \<Rightarrow> rat \<times> int \<Rightarrow> job" where
  "scored s e = (jobs s ! nat (snd e))\<lparr>similarity_score := Some (1 / (1 + fst e))\<rparr>"





section \<open>Alignment is preserved\<close>

lemma add_loop_closed:
  "add_loop enc cur js (vs, vj, m, a) =
     (vs @ map (\<lambda>j. the (create_job_vector enc j)) (filter (embeddable enc) js),
      vj @ filter (embeddable enc) js,
      (\<lambda>k. if cur + a \<le> k \<and> k < cur + a + length (filter (embeddable enc) js)
           then Some k else m k),
      a + length (filter (embeddable enc) js))"
proof (induction js arbitrary: vs vj m a)
  case Nil
  show ?case by (auto simp: fun_eq_iff)
next
  case (Cons j js)
  show ?case
  proof (cases "create_job_vector enc j")
    case None
    then have "\<not> embeddable enc j" by (simp add: embeddable_def)
    with None Cons.IH [of vs vj m a] show ?thesis by simp
  next
    case (Some v)
    then have emb: "embeddable enc j" by (simp add: embeddable_def)
    have "add_loop enc cur (j # js) (vs, vj, m, a) =
            add_loop enc cur js (vs @ [v], vj @ [j], m(cur + a \<mapsto> cur + a), a + 1)"
      using Some by simp
    also note Cons.IH [of "vs @ [v]" "vj @ [j]" "m(cur + a \<mapsto> cur + a)" "a + 1"]
    finally show ?thesis
      using Some emb by (auto simp: fun_eq_iff)
  qed
qed

lemma add_jobs_closed:
  "add_jobs_from_dataframe enc s b =
     (length (filter (embeddable enc) b),
      s\<lparr>job_ids_map := (\<lambda>k. if length (jobs s) \<le> k \<and>
                                k < length (jobs s) + length (filter (embeddable enc) b)
                             then Some k else job_ids_map s k),
        index := index s @ map (\<lambda>j. the (create_job_vector enc j)) (filter (embeddable enc) b),
        jobs := jobs s @ filter (embeddable enc) b\<rparr>)"
  by (simp add: add_jobs_from_dataframe_def add_loop_closed Let_def)

lemma aligned_add:
  assumes "aligned enc s"
  shows "aligned enc (snd (add_jobs_from_dataframe enc s b))"
proof -
  let ?F = "filter (embeddable enc) b"
  let ?n = "length (jobs s)"
  define s' where "s' = snd (add_jobs_from_dataframe enc s b)"
  have idx: "index s' = index s @ map (\<lambda>j. the (create_job_vector enc j)) ?F"
    and jbs: "jobs s' = jobs s @ ?F"
    and mp: "job_ids_map s' =
      (\<lambda>k. if ?n \<le> k \<and> k < ?n + length ?F then Some k else job_ids_map s k)"
    by (simp_all add: s'_def add_jobs_closed)
  from assms have len: "length (index s) = ?n"
    and old: "\<And>i. i < ?n \<Longrightarrow> \<exists>p. job_ids_map s i = Some p \<and> p < ?n \<and>
                 create_job_vector enc (jobs s ! p) = Some (index s ! i)"
    by (auto simp: aligned_def split: option.splits)
  have new: "create_job_vector enc (?F ! k) = Some (the (create_job_vector enc (?F ! k)))"
    if "k < length ?F" for k
  proof -
    from that have "?F ! k \<in> set ?F" by (rule nth_mem)
    then have "embeddable enc (?F ! k)" by simp
    then show ?thesis by (simp add: embeddable_def)
  qed
  have "aligned enc s'"
    unfolding aligned_def
  proof (intro conjI allI impI)
    show "length (index s') = length (jobs s')"
      using len by (simp add: idx jbs)
  next
    fix i
    assume "i < length (index s')"
    then have i: "i < ?n + length ?F" using len by (simp add: idx)
    show "case job_ids_map s' i of
            None \<Rightarrow> False
          | Some p \<Rightarrow> p < length (jobs s') \<and>
              create_job_vector enc (jobs s' ! p) = Some (index s' ! i)"
    proof (cases "i < ?n")
      case True
      from old [OF True] obtain p where "job_ids_map s i = Some p" "p < ?n"
        "create_job_vector enc (jobs s ! p) = Some (index s ! i)" by blast
      with True len show ?thesis by (simp add: idx jbs mp nth_append)
    next
      case False
      with i have k: "i - ?n < length ?F" by simp
      from False i len new [OF k] show ?thesis by (simp add: idx jbs mp nth_append)
    qed
  qed
  then show ?thesis by (simp only: s'_def)
qed

lemma aligned_init: "aligned enc (init_store d)"
  by (simp add: aligned_def init_store_def)

lemma aligned_add_batches: "aligned enc s \<Longrightarrow> aligned enc (add_batches enc s bs)"
  unfolding add_batches_def
  by (induction bs arbitrary: s) (simp_all add: aligned_add)

text \<open>
  Claim C1. After any sequence of batches added to a new store, the store is aligned:
  every position of the vector index is mapped by \<open>job_ids_map\<close> to a record whose
  canonical text embeds to the vector stored there. One batch preserves alignment, and
  it appends exactly the records whose embedding succeeded: a record whose embedding
  request fails adds no vector, no record and no map entry.
\<close>

theorem C1_alignment_invariant:
  "aligned enc (add_batches enc (init_store d) bs) \<and>
   (aligned enc s \<longrightarrow> aligned enc (snd (add_jobs_from_dataframe enc s b))) \<and>
   fst (add_jobs_from_dataframe enc s b) = length (filter (embeddable enc) b) \<and>
   length (index (snd (add_jobs_from_dataframe enc s b))) =
     length (index s) + length (filter (embeddable enc) b) \<and>
   jobs (snd (add_jobs_from_dataframe enc s b)) = jobs s @ filter (embeddable enc) b \<and>
   dom (job_ids_map (snd (add_jobs_from_dataframe enc s b))) =
     dom (job_ids_map s) \<union>
       {length (jobs s) ..< length (jobs s) + length (filter (embeddable enc) b)}"
proof (intro conjI impI)
  show "aligned enc (add_batches enc (init_store d) bs)"
    by (rule aligned_add_batches [OF aligned_init])
next
  assume "aligned enc s"
  then show "aligned enc (snd (add_jobs_from_dataframe enc s b))"
    by (rule aligned_add)
next
  show "dom (job_ids_map (snd (add_jobs_from_dataframe enc s b))) =
     dom (job_ids_map s) \<union>
       {length (jobs s) ..< length (jobs s) + length (filter (embeddable enc) b)}"
    by (auto simp: add_jobs_closed dom_def)
qed (simp_all add: add_jobs_closed)

theorem C1_alignment_invariant_witness:
  "aligned short_enc
     (add_batches short_enc (init_store ''vs'')
        [[empty_job\<lparr>title := Some (PStr ''A'')\<rparr>,
          empty_job\<lparr>description := Some (PStr ''0123456789'')\<rparr>],
         [empty_job\<lparr>title := Some (PStr ''BC'')\<rparr>]]) \<and>
   aligned short_enc (init_store ''vs'') \<and>
   aligned short_enc (snd (add_jobs_from_dataframe short_enc (init_store ''vs'')
        [empty_job\<lparr>title := Some (PStr ''A'')\<rparr>,
         empty_job\<lparr>description := Some (PStr ''0123456789'')\<rparr>])) \<and>
   add_jobs_from_dataframe short_enc (init_store ''vs'')
        [empty_job\<lparr>title := Some (PStr ''A'')\<rparr>,
         empty_job\<lparr>description := Some (PStr ''0123456789'')\<rparr>] =
     (1, \<lparr>index = [[43]], jobs = [empty_job\<lparr>title := Some (PStr ''A'')\<rparr>],
          job_ids_map = [0 \<mapsto> 0], vector_dir = ''vs''\<rparr>)"
proof -
  let ?b = "[empty_job\<lparr>title := Some (PStr ''A'')\<rparr>,
             empty_job\<lparr>description := Some (PStr ''0123456789'')\<rparr>]"
  note inst = C1_alignment_invariant [of short_enc "''vs''"
      "[?b, [empty_job\<lparr>title := Some (PStr ''BC'')\<rparr>]]" "init_store ''vs''" ?b]
  have a0: "aligned short_enc (init_store ''vs'')"
    by (simp add: aligned_def init_store_def)
  have e1: "embeddable short_enc (empty_job\<lparr>title := Some (PStr ''A'')\<rparr>)"
    by (simp add: embeddable_def create_job_vector_def canonical_text_def fmt_get_def
        short_enc_def empty_job_def)
  have e2: "\<not> embeddable short_enc (empty_job\<lparr>description := Some (PStr ''0123456789'')\<rparr>)"
    by (simp add: embeddable_def create_job_vector_def canonical_text_def fmt_get_def
        short_enc_def empty_job_def)
  have v1: "create_job_vector short_enc (empty_job\<lparr>title := Some (PStr ''A'')\<rparr>) = Some [43]"
    by (simp add: create_job_vector_def canonical_text_def fmt_get_def
        short_enc_def empty_job_def)
  have run: "add_jobs_from_dataframe short_enc (init_store ''vs'') ?b =
     (1, \<lparr>index = [[43]], jobs = [empty_job\<lparr>title := Some (PStr ''A'')\<rparr>],
          job_ids_map = [0 \<mapsto> 0], vector_dir = ''vs''\<rparr>)"
    by (simp add: add_jobs_closed e1 e2 v1 init_store_def fun_eq_iff)
  from inst have b1: "aligned short_enc (add_batches short_enc (init_store ''vs'')
        [?b, [empty_job\<lparr>title := Some (PStr ''BC'')\<rparr>]])"
    by (rule conjunct1)
  from inst a0 have b2: "aligned short_enc (snd (add_jobs_from_dataframe short_enc (init_store ''vs'') ?b))"
    by blast
  from b1 a0 b2 run show ?thesis by (intro conjI)
qed

section \<open>Loading a snapshot\<close>

lemma load_missing_unchanged:
  "fs (path_join (vector_dir s) (base @ ''.index'')) = None \<or>
   fs (path_join (vector_dir s) (base @ ''.pkl'')) = None \<Longrightarrow> load s fs base = (False, s)"
  by (auto simp: load_def Let_def)

lemma load_index_unreadable_unchanged:
  "read_index fs (path_join (vector_dir s) (base @ ''.index'')) = None \<Longrightarrow>
   load s fs base = (False, s)"
  by (simp add: load_def Let_def)

text \<open>
  Claim C2. \<open>load\<close> is not atomic: on a snapshot whose index file is readable and
  whose data file exists but cannot be unpickled, \<open>load\<close> on a new store returns
  \<open>False\<close> and leaves the store with the index of the snapshot and its own (empty)
  record list and position map.
\<close>

theorem C2_load_partial:
  "load (init_store ''vs'') half_snapshot ''snap'' =
     (False, \<lparr>index = [[1, 2]], jobs = [], job_ids_map = Map.empty, vector_dir = ''vs''\<rparr>) \<and>
   snd (load (init_store ''vs'') half_snapshot ''snap'') \<noteq> init_store ''vs''"
  by (simp add: load_def path_join_def init_store_def half_snapshot_def read_index_def
      pickle_load_def)

section \<open>The result loop\<close>

lemma matches_Nil: "matches s f [] = []"
  by (simp add: matches_def map_filter_simps)

lemma matches_Cons:
  "matches s f (e # es) =
     (case candidate s e of
        None \<Rightarrow> matches s f es
      | Some j \<Rightarrow> if rejects f j then matches s f es else j # matches s f es)"
  by (simp add: matches_def map_filter_simps split: option.splits)

lemma scan_eq:
  "scan s k f found r = r @ take (max 1 (k - length r)) (matches s f found)"
proof (induction found arbitrary: r)
  case Nil
  show ?case by (simp add: matches_Nil)
next
  case (Cons e es)
  obtain dst idx where e: "e = (dst, idx)" by (cases e)
  show ?case
  proof (cases "candidate s e")
    case None
    then have "scan s k f (e # es) r = scan s k f es r"
      by (auto simp: e candidate_def split: option.splits if_splits)
    with None Cons.IH [of r] show ?thesis by (simp add: matches_Cons)
  next
    case (Some j)
    then have j: "j = (jobs s ! the (job_ids_map s (nat idx)))\<lparr>similarity_score := Some (1 / (1 + dst))\<rparr>"
      and v: "\<not> (idx < 0 \<or> idx \<ge> int (length (jobs s)))"
             "job_ids_map s (nat idx) \<noteq> None"
             "\<not> the (job_ids_map s (nat idx)) \<ge> length (jobs s)"
      by (auto simp: e candidate_def split: option.splits if_splits)
    show ?thesis
    proof (cases "rejects f j")
      case True
      with j v have "scan s k f (e # es) r = scan s k f es r"
        by (auto simp: e Let_def)
      with Some True Cons.IH [of r] show ?thesis by (simp add: matches_Cons)
    next
      case False
      show ?thesis
      proof (cases "length (r @ [j]) \<ge> k")
        case True
        with j v False have "scan s k f (e # es) r = r @ [j]"
          by (auto simp: e Let_def)
        moreover from True have "max 1 (k - length r) = 1" by simp
        ultimately show ?thesis using Some False by (simp add: matches_Cons)
      next
        case nb: False
        with j v False have "scan s k f (e # es) r = scan s k f es (r @ [j])"
          by (auto simp: e Let_def)
        also have "\<dots> = (r @ [j]) @ take (max 1 (k - length (r @ [j]))) (matches s f es)"
          by (rule Cons.IH)
        also have "\<dots> = r @ take (max 1 (k - length r)) (j # matches s f es)"
        proof -
          from nb have "k - length r = Suc (k - length (r @ [j]))" "k - length (r @ [j]) \<ge> 1"
            by simp_all
          then show ?thesis by (simp add: max_def)
        qed
        finally show ?thesis using Some False by (simp add: matches_Cons)
      qed
    qed
  qed
qed

section \<open>Order of the results\<close>

lemma l2sq_nonneg: "0 \<le> l2sq a b"
  unfolding l2sq_def by (rule sum_list_nonneg) auto

lemma candidate_score:
  "candidate s e = Some j \<Longrightarrow> get_score j = 1 / (1 + fst e)"
  by (cases e) (auto simp: candidate_def get_score_def split: option.splits if_splits)

lemma candidate_pad: "candidate s pad_entry = None"
  by (simp add: candidate_def pad_entry_def)

lemma map_filter_candidate_pads:
  "List.map_filter (candidate s) (es @ replicate m pad_entry) = List.map_filter (candidate s) es"
  by (simp add: List.map_filter_def candidate_pad)

lemma in_map_filterD:
  "j \<in> set (List.map_filter f es) \<Longrightarrow> \<exists>e \<in> set es. f e = Some j"
  by (auto simp: List.map_filter_def)

lemma desc_candidates:
  assumes "sorted (map fst es)" and "\<forall>e \<in> set es. 0 \<le> fst e"
  shows "desc_scores (List.map_filter (candidate s) es)"
  using assms
proof (induction es)
  case Nil
  show ?case by (simp add: desc_scores_def map_filter_simps)
next
  case (Cons e es)
  from Cons.prems have srt: "sorted (map fst es)" and pos: "\<forall>e \<in> set es. 0 \<le> fst e"
    and le: "\<forall>e' \<in> set es. fst e \<le> fst e'" and e0: "0 \<le> fst e"
    by auto
  have IH: "desc_scores (List.map_filter (candidate s) es)"
    by (rule Cons.IH [OF srt pos])
  show ?case
  proof (cases "candidate s e")
    case None
    with IH show ?thesis by (simp add: map_filter_simps)
  next
    case (Some j)
    have "get_score j' \<le> get_score j" if "j' \<in> set (List.map_filter (candidate s) es)" for j'
    proof -
      from in_map_filterD [OF that] obtain e' where e': "e' \<in> set es" "candidate s e' = Some j'"
        by blast
      from e' le have "fst e \<le> fst e'" by blast
      with e0 have "1 / (1 + fst e') \<le> 1 / (1 + fst e)"
        by (simp add: frac_le)
      with candidate_score [OF Some] candidate_score [OF e'(2)] show ?thesis by simp
    qed
    with IH Some show ?thesis by (simp add: map_filter_simps desc_scores_def)
  qed
qed

lemma desc_filter: "desc_scores js \<Longrightarrow> desc_scores (filter P js)"
  unfolding desc_scores_def by (rule sorted_wrt_filter)

lemma desc_take: "desc_scores js \<Longrightarrow> desc_scores (take n js)"
  unfolding desc_scores_def by (rule sorted_wrt_take)

lemma ranked_sorted:
  "sorted (map fst (take k (sort_key fst (map (\<lambda>i. (l2sq q (idx ! i), int i)) [0 ..< length idx]))))"
proof -
  have "sorted (map fst (sort_key fst (map (\<lambda>i. (l2sq q (idx ! i), int i)) [0 ..< length idx])))"
    by (rule sorted_sort_key)
  then show ?thesis by (simp add: take_map [symmetric] sorted_wrt_take)
qed

lemma ranked_nonneg:
  "\<forall>e \<in> set (take k (sort_key fst (map (\<lambda>i. (l2sq q (idx ! i), int i)) [0 ..< length idx]))).
     0 \<le> fst e"
proof
  fix e
  assume "e \<in> set (take k (sort_key fst (map (\<lambda>i. (l2sq q (idx ! i), int i)) [0 ..< length idx])))"
  then have "e \<in> set (sort_key fst (map (\<lambda>i. (l2sq q (idx ! i), int i)) [0 ..< length idx]))"
    by (rule in_set_takeD)
  then show "0 \<le> fst e" by (auto simp: l2sq_nonneg)
qed

lemma desc_matches_found:
  assumes "faiss_search idx q kk = Some found"
  shows "desc_scores (matches s f found)"
proof -
  let ?ranked = "sort_key fst (map (\<lambda>i. (l2sq q (idx ! i), int i)) [0 ..< length idx])"
  from assms have "found = take kk ?ranked @ replicate (kk - length idx) pad_entry"
    by (simp add: faiss_search_def Let_def split: if_splits)
  then have "List.map_filter (candidate s) found = List.map_filter (candidate s) (take kk ?ranked)"
    by (simp only: map_filter_candidate_pads)
  moreover have "desc_scores (List.map_filter (candidate s) (take kk ?ranked))"
    by (rule desc_candidates [OF ranked_sorted ranked_nonneg])
  ultimately show ?thesis by (simp add: matches_def desc_filter)
qed

lemma desc_scan:
  "faiss_search idx q kk = Some found \<Longrightarrow> desc_scores (scan s k f found [])"
  by (simp add: scan_eq desc_take desc_matches_found)

lemma desc_sort_desc: "desc_scores (sort_desc js)"
proof -
  have "sorted (map (\<lambda>j. - get_score j) (sort_key (\<lambda>j. - get_score j) js))"
    by (rule sorted_sort_key)
  then show ?thesis by (simp add: desc_scores_def sort_desc_def sorted_map)
qed

lemma desc_constant: "desc_scores (map (\<lambda>j. j\<lparr>similarity_score := Some c\<rparr>) js)"
  by (induction js) (simp_all add: desc_scores_def get_score_def)

lemma desc_fallback: "desc_scores (fallback_search s q k f rs)"
  by (simp add: fallback_search_def Let_def desc_take desc_sort_desc desc_constant)

section \<open>Size of the results\<close>

lemma length_random_sample: "length (random_sample pool m rs) = min m (length pool)"
proof (induction pool m rs rule: random_sample.induct)
  case (3 x xs m rs)
  define r where "r = (case rs of [] \<Rightarrow> 0 | r # _ \<Rightarrow> r mod length (x # xs))"
  have r: "r < length (x # xs)" by (simp add: r_def split: list.splits)
  have "length (take r (x # xs) @ drop (Suc r) (x # xs)) = length xs"
    using r by (simp add: min_def)
  with "3.IH" [of r] show ?case by (simp add: r_def Let_def)
qed simp_all

lemma set_random_sample: "set (random_sample pool m rs) \<subseteq> set pool"
proof (induction pool m rs rule: random_sample.induct)
  case (3 x xs m rs)
  define r where "r = (case rs of [] \<Rightarrow> 0 | r # _ \<Rightarrow> r mod length (x # xs))"
  have r: "r < length (x # xs)" by (simp add: r_def split: list.splits)
  have "set (take r (x # xs) @ drop (Suc r) (x # xs)) \<subseteq> set (x # xs)"
    by (auto dest: in_set_takeD in_set_dropD)
  moreover have "(x # xs) ! r \<in> set (x # xs)" using r by (rule nth_mem)
  ultimately show ?case using "3.IH" [of r] by (simp add: r_def Let_def) blast
qed simp_all

lemma fallback_nonempty:
  assumes "jobs s \<noteq> []" and "1 \<le> k"
  shows "fallback_search s q k f rs \<noteq> []"
proof (cases "sort_desc (score_jobs (split (lower q)) f (jobs s)) = []")
  case True
  from assms have "0 < min k (length (jobs s))" by simp
  then have "0 < length (random_sample (jobs s) (min k (length (jobs s))) rs)"
    by (simp add: length_random_sample)
  then have "random_sample (jobs s) (min k (length (jobs s))) rs \<noteq> []"
    by auto
  with True assms show ?thesis by (simp add: fallback_search_def Let_def)
next
  case False
  with assms show ?thesis by (simp add: fallback_search_def Let_def)
qed

lemma scored_candidate: "candidate s e = Some j \<Longrightarrow> similarity_score j \<noteq> None"
  by (cases e) (auto simp: candidate_def split: option.splits if_splits)

lemma scored_matches: "list_all (\<lambda>r. similarity_score r \<noteq> None) (matches s f found)"
  by (auto simp: list_all_iff matches_def dest!: in_map_filterD scored_candidate)

lemma scored_score_jobs: "list_all (\<lambda>r. similarity_score r \<noteq> None) (score_jobs ts f js)"
  by (induction js) simp_all

lemma list_all_take: "list_all P xs \<Longrightarrow> list_all P (take n xs)"
  by (auto simp: list_all_iff dest: in_set_takeD)

lemma scored_fallback: "list_all (\<lambda>r. similarity_score r \<noteq> None) (fallback_search s q k f rs)"
proof -
  let ?scored = "sort_desc (score_jobs (split (lower q)) f (jobs s))"
  let ?sample = "map (\<lambda>j. j\<lparr>similarity_score := Some (1 / 10)\<rparr>)
                   (random_sample (jobs s) (min k (length (jobs s))) rs)"
  have a: "list_all (\<lambda>r. similarity_score r \<noteq> None) ?scored"
    using scored_score_jobs [of "split (lower q)" f "jobs s"]
    by (simp add: list_all_iff sort_desc_def)
  have b: "list_all (\<lambda>r. similarity_score r \<noteq> None) ?sample"
    unfolding list_all_iff by (intro ballI) (auto simp del: divide_eq_eq_numeral1)
  have eq: "fallback_search s q k f rs = take k (if ?scored = [] then ?sample else ?scored)"
    by (simp add: fallback_search_def Let_def)
  have "list_all (\<lambda>r. similarity_score r \<noteq> None)
          (take k (if ?scored = [] then ?sample else ?scored))"
    using a b by (auto intro: list_all_take)
  then show ?thesis by (simp only: eq)
qed

text \<open>
  Claim C9. The list returned by \<open>search_similar_jobs\<close> is in descending order of
  \<open>similarity_score\<close>, and every result carries a score, whichever path produced it:
  the distance-ranked results, the keyword fallback, or the random sample.
\<close>

theorem C9_similarity_ordering:
  "desc_scores (search_similar_jobs enc s q k f rs) \<and>
   list_all (\<lambda>r. similarity_score r \<noteq> None) (search_similar_jobs enc s q k f rs)"
proof -
  let ?P = "\<lambda>js. desc_scores js \<and> list_all (\<lambda>r. similarity_score r \<noteq> None) js"
  have fb: "?P (fallback_search s q k f rs)"
    by (intro conjI desc_fallback scored_fallback)
  have sc: "?P (scan s k f found [])"
    if "faiss_search (index s) qv kk = Some found" for qv kk found
    using desc_scan [OF that, of s k f] list_all_take [OF scored_matches [of s f found]]
    by (simp only: scan_eq append_Nil simp_thms)
  have nil: "?P []" by (simp add: desc_scores_def)
  show ?thesis
  proof (cases "jobs s = []")
    case True
    with nil show ?thesis by (simp add: search_similar_jobs_def)
  next
    case ne: False
    show ?thesis
    proof (cases "enc q")
      case None
      with ne fb show ?thesis by (simp add: search_similar_jobs_def)
    next
      case (Some qv)
      let ?kk = "case f of None \<Rightarrow> k | Some _ \<Rightarrow> min (k * 5) (length (jobs s))"
      show ?thesis
      proof (cases "faiss_search (index s) qv ?kk")
        case None
        with ne Some fb show ?thesis by (simp add: search_similar_jobs_def)
      next
        case found: (Some found)
        from sc [OF found] fb ne Some found show ?thesis
          by (simp add: search_similar_jobs_def Let_def)
      qed
    qed
  qed
qed

lemma one_store_eq:
  "one_store = \<lparr>index = [[47]], jobs = [nurse_job], job_ids_map = [0 \<mapsto> 0], vector_dir = ''vs''\<rparr>"
proof -
  have v: "create_job_vector no_x_enc nurse_job = Some [47]"
    by (simp add: create_job_vector_def canonical_text_def fmt_get_def no_x_enc_def
        nurse_job_def empty_job_def)
  then have e: "embeddable no_x_enc nurse_job" by (simp add: embeddable_def)
  show ?thesis
    by (simp add: one_store_def add_jobs_closed e v init_store_def fun_eq_iff)
qed

text \<open>
  Claim C5. For \<open>k \<ge> 1\<close>, \<open>search_similar_jobs\<close> returns the empty list exactly when
  the store holds no record, with or without a filter and whatever the embedding
  provider and the random generator do.
\<close>

theorem C5_search_empty_iff:
  "1 \<le> k \<Longrightarrow> search_similar_jobs enc s q k f rs = [] \<longleftrightarrow> jobs s = []"
  by (auto simp: search_similar_jobs_def Let_def fallback_nonempty split: option.splits)

theorem C5_search_empty_iff_witness:
  "(1::nat) \<le> 1 \<and>
   search_similar_jobs no_x_enc one_store ''x'' 1 (Some (\<lambda>j. False)) [] \<noteq> [] \<and>
   jobs one_store \<noteq> [] \<and>
   search_similar_jobs no_x_enc (init_store ''vs'') ''x'' 1 None [] = [] \<and>
   jobs (init_store ''vs'') = []"
proof -
  have a: "jobs one_store \<noteq> []" by (simp add: one_store_eq)
  have b: "jobs (init_store ''vs'') = []" by (simp add: init_store_def)
  from a b
    C5_search_empty_iff [of 1 no_x_enc one_store "''x''" "Some (\<lambda>j. False)" "[]"]
    C5_search_empty_iff [of 1 no_x_enc "init_store ''vs''" "''x''" None "[]"]
  show ?thesis by simp
qed

section \<open>The last-resort sample\<close>

lemma fallback_sample:
  assumes "score_jobs (split (lower q)) f (jobs s) = []"
  shows "fallback_search s q k f rs =
           map (\<lambda>j. j\<lparr>similarity_score := Some (1 / 10)\<rparr>)
             (random_sample (jobs s) (min k (length (jobs s))) rs)"
proof -
  have "length (random_sample (jobs s) (min k (length (jobs s))) rs) \<le> k"
    by (simp add: length_random_sample)
  with assms show ?thesis
    by (simp add: fallback_search_def Let_def sort_desc_def)
qed

lemma one_store_search:
  "search_similar_jobs no_x_enc one_store ''x'' 5 (Some doctor_filter) [] =
     [nurse_job\<lparr>similarity_score := Some (1 / 10)\<rparr>]"
  by (simp add: search_similar_jobs_def one_store_eq no_x_enc_def fallback_search_def
      split_def lower_def lower_char_def is_space_def rejects_def doctor_filter_def
      nurse_job_def empty_job_def sort_desc_def)

text \<open>
  Claim C10. When no record passes the filter with a positive keyword score, the
  fallback returns a random sample of the whole store, each record with score 0.1,
  without applying the filter; the sample has \<open>min k (length (jobs s))\<close> records,
  all of them records of the store. So there are a store and a filter for which
  \<open>search_similar_jobs\<close> returns a record that the filter rejects, and fewer than
  \<open>k\<close> records.
\<close>

theorem C10_last_resort_bypasses_filter:
  "(score_jobs (split (lower q)) f (jobs s) = [] \<longrightarrow>
      fallback_search s q k f rs =
        map (\<lambda>j. j\<lparr>similarity_score := Some (1 / 10)\<rparr>)
          (random_sample (jobs s) (min k (length (jobs s))) rs) \<and>
      length (fallback_search s q k f rs) = min k (length (jobs s)) \<and>
      set (random_sample (jobs s) (min k (length (jobs s))) rs) \<subseteq> set (jobs s)) \<and>
   (\<exists>enc s q k p rs.
      (\<exists>r \<in> set (search_similar_jobs enc s q k (Some p) rs). \<not> p r) \<and>
      length (search_similar_jobs enc s q k (Some p) rs) < k)"
proof (intro conjI impI)
  assume a: "score_jobs (split (lower q)) f (jobs s) = []"
  show "fallback_search s q k f rs =
        map (\<lambda>j. j\<lparr>similarity_score := Some (1 / 10)\<rparr>)
          (random_sample (jobs s) (min k (length (jobs s))) rs)"
    by (rule fallback_sample [OF a])
  then show "length (fallback_search s q k f rs) = min k (length (jobs s))"
    by (simp add: length_random_sample)
  show "set (random_sample (jobs s) (min k (length (jobs s))) rs) \<subseteq> set (jobs s)"
    by (rule set_random_sample)
next
  have "\<not> doctor_filter (nurse_job\<lparr>similarity_score := Some (1 / 10)\<rparr>)"
    by (simp add: doctor_filter_def nurse_job_def empty_job_def)
  then have "(\<exists>r \<in> set (search_similar_jobs no_x_enc one_store ''x'' 5 (Some doctor_filter) []).
               \<not> doctor_filter r) \<and>
             length (search_similar_jobs no_x_enc one_store ''x'' 5 (Some doctor_filter) []) < 5"
    by (simp add: one_store_search)
  then show "\<exists>enc s q k p rs.
      (\<exists>r \<in> set (search_similar_jobs enc s q k (Some p) rs). \<not> p r) \<and>
      length (search_similar_jobs enc s q k (Some p) rs) < k"
    by blast
qed

theorem C10_last_resort_bypasses_filter_witness:
  "score_jobs (split (lower ''x'')) (Some doctor_filter) (jobs one_store) = [] \<and>
   fallback_search one_store ''x'' 5 (Some doctor_filter) [] =
     [nurse_job\<lparr>similarity_score := Some (1 / 10)\<rparr>] \<and>
   length (fallback_search one_store ''x'' 5 (Some doctor_filter) []) = 1 \<and>
   search_similar_jobs no_x_enc one_store ''x'' 5 (Some doctor_filter) [] =
     [nurse_job\<lparr>similarity_score := Some (1 / 10)\<rparr>] \<and>
   \<not> doctor_filter (nurse_job\<lparr>similarity_score := Some (1 / 10)\<rparr>)"
proof -
  have a: "score_jobs (split (lower ''x'')) (Some doctor_filter) (jobs one_store) = []"
    by (simp add: one_store_eq rejects_def doctor_filter_def nurse_job_def empty_job_def)
  have b: "random_sample (jobs one_store) (min 5 (length (jobs one_store))) [] = [nurse_job]"
    by (simp add: one_store_eq)
  have c: "\<not> doctor_filter (nurse_job\<lparr>similarity_score := Some (1 / 10)\<rparr>)"
    by (simp add: doctor_filter_def nurse_job_def empty_job_def)
  from C10_last_resort_bypasses_filter [of "''x''" "Some doctor_filter" one_store 5 "[]"] a
  have "fallback_search one_store ''x'' 5 (Some doctor_filter) [] =
        map (\<lambda>j. j\<lparr>similarity_score := Some (1 / 10)\<rparr>)
          (random_sample (jobs one_store) (min 5 (length (jobs one_store))) [])"
    by blast
  with b have d: "fallback_search one_store ''x'' 5 (Some doctor_filter) [] =
     [nurse_job\<lparr>similarity_score := Some (1 / 10)\<rparr>]"
    by simp
  from a d c one_store_search show ?thesis by simp
qed

section \<open>Filtered search\<close>

lemma embeddable_len_enc: "embeddable len_enc j"
  by (simp add: embeddable_def create_job_vector_def len_enc_def)

lemma vector_titled: "create_job_vector len_enc (titled t) = Some [of_nat (42 + length t)]"
  by (simp add: create_job_vector_def len_enc_def canonical_text_def fmt_get_def titled_def
      empty_job_def)

lemma eleven_store_eq:
  "eleven_store =
     \<lparr>index = [[42], [43], [44], [45], [46], [47], [48], [49], [50], [51], [52]],
      jobs = map titled eleven_titles,
      job_ids_map = (\<lambda>k. if k < 11 then Some k else None), vector_dir = ''vs''\<rparr>"
  by (simp add: eleven_store_def add_jobs_closed embeddable_len_enc vector_titled init_store_def
      fun_eq_iff comp_def eleven_titles_def)

lemma eleven_found:
  "faiss_search (index eleven_store) [1] 10 =
     Some [(1681, 0), (1764, 1), (1849, 2), (1936, 3), (2025, 4), (2116, 5), (2209, 6),
           (2304, 7), (2401, 8), (2500, 9)]"
  by (simp add: eleven_store_eq faiss_search_def l2sq_def upt_conv_Cons)

lemma eleven_scan:
  "scan eleven_store 2 (Some ends_filter)
     [(1681, 0), (1764, 1), (1849, 2), (1936, 3), (2025, 4), (2116, 5), (2209, 6),
      (2304, 7), (2401, 8), (2500, 9)] [] =
   [(titled '''')\<lparr>similarity_score := Some (1 / 1682)\<rparr>]"
  by (simp add: eleven_store_eq eleven_titles_def rejects_def ends_filter_def titled_def
      empty_job_def)

lemma scan_filtered:
  assumes "jobs s \<noteq> []" and "1 \<le> k" and "enc q = Some qv"
  shows "\<exists>found. faiss_search (index s) qv (min (k * 5) (length (jobs s))) = Some found \<and>
           length found = min (k * 5) (length (jobs s)) \<and>
           search_similar_jobs enc s q k (Some p) rs =
             (if matches s (Some p) found = [] then fallback_search s q k (Some p) rs
              else take k (matches s (Some p) found))"
proof -
  let ?kk = "min (k * 5) (length (jobs s))"
  let ?ranked = "sort_key fst (map (\<lambda>i. (l2sq qv (index s ! i), int i)) [0 ..< length (index s)])"
  let ?found = "take ?kk ?ranked @ replicate (?kk - length (index s)) pad_entry"
  from assms have kk: "?kk \<noteq> 0" by simp
  then have f: "faiss_search (index s) qv ?kk = Some ?found"
    by (simp add: faiss_search_def Let_def)
  have len: "length ?found = ?kk" by (simp add: min_def)
  from assms(2) have mx: "max 1 k = k" by simp
  have "search_similar_jobs enc s q k (Some p) rs =
          (if matches s (Some p) ?found = [] then fallback_search s q k (Some p) rs
           else take k (matches s (Some p) ?found))"
    using assms f by (simp add: search_similar_jobs_def Let_def scan_eq mx)
  with f len show ?thesis by blast
qed

lemma eleven_search:
  "search_similar_jobs len_enc eleven_store ''q'' 2 (Some ends_filter) [] =
     [(titled '''')\<lparr>similarity_score := Some (1 / 1682)\<rparr>]"
proof -
  have ne: "jobs eleven_store \<noteq> []" by (simp add: eleven_store_eq eleven_titles_def)
  have kk: "min 10 (length (jobs eleven_store)) = 10"
    by (simp add: eleven_store_eq eleven_titles_def)
  have q: "len_enc ''q'' = Some [1]" by (simp add: len_enc_def)
  show ?thesis
    by (simp add: search_similar_jobs_def ne q kk eleven_found eleven_scan del: scan.simps)
qed

text \<open>
  Claim C6, as stated, fails: with \<open>k = 2\<close> the filtered search ranks only
  \<open>min (5 * 2) 11 = 10\<close> of the eleven records. It returns the one match among them,
  although the eleventh record passes the filter as well and was never examined.
\<close>

theorem C6_scan_exhaustion_counterexample:
  "search_similar_jobs len_enc eleven_store ''q'' 2 (Some ends_filter) [] =
     [(titled '''')\<lparr>similarity_score := Some (1 / 1682)\<rparr>] \<and>
   length (search_similar_jobs len_enc eleven_store ''q'' 2 (Some ends_filter) []) < 2 \<and>
   length (jobs eleven_store) = 11 \<and>
   jobs eleven_store ! 10 = titled ''aaaaaaaaaa'' \<and>
   ends_filter (titled ''aaaaaaaaaa'')"
proof -
  have "length (jobs eleven_store) = 11" "jobs eleven_store ! 10 = titled ''aaaaaaaaaa''"
    by (simp_all add: eleven_store_eq eleven_titles_def)
  moreover have "ends_filter (titled ''aaaaaaaaaa'')"
    by (simp add: ends_filter_def titled_def empty_job_def)
  ultimately show ?thesis by (simp add: eleven_search)
qed

text \<open>
  Claim C6, amended. With a filter, a non-empty store, \<open>k \<ge> 1\<close> and a query that
  the provider embeds, the candidate pool is the list \<open>found\<close> of the
  \<open>min (5 * k) (length (jobs s))\<close> nearest index entries, not the whole store. The
  search skips the entries that are invalid or rejected by the filter and returns the
  first \<open>k\<close> matches of the pool in ranked order, all of them when the pool holds
  fewer than \<open>k\<close>; only when the pool holds no match does it go to the keyword
  fallback.
\<close>

theorem C6_filter_scan_capped:
  assumes "jobs s \<noteq> []" and "1 \<le> k" and "enc q = Some qv"
  shows "\<exists>found. faiss_search (index s) qv (min (k * 5) (length (jobs s))) = Some found \<and>
           length found = min (k * 5) (length (jobs s)) \<and>
           search_similar_jobs enc s q k (Some p) rs =
             (if matches s (Some p) found = [] then fallback_search s q k (Some p) rs
              else take k (matches s (Some p) found))"
  using assms by (rule scan_filtered)

theorem C6_filter_scan_capped_witness:
  "jobs eleven_store \<noteq> [] \<and> (1::nat) \<le> 2 \<and> len_enc ''q'' = Some [1] \<and>
   (\<exists>found. faiss_search (index eleven_store) [1] (min (2 * 5) (length (jobs eleven_store))) =
        Some found \<and>
      length found = 10 \<and>
      matches eleven_store (Some ends_filter) found =
        [(titled '''')\<lparr>similarity_score := Some (1 / 1682)\<rparr>] \<and>
      search_similar_jobs len_enc eleven_store ''q'' 2 (Some ends_filter) [] =
        take 2 (matches eleven_store (Some ends_filter) found))"
proof -
  have ne: "jobs eleven_store \<noteq> []" by (simp add: eleven_store_eq eleven_titles_def)
  have kk: "min (2 * 5) (length (jobs eleven_store)) = 10"
    by (simp add: eleven_store_eq eleven_titles_def)
  have q: "len_enc ''q'' = Some [1]" by (simp add: len_enc_def)
  from ne q C6_filter_scan_capped [where s = eleven_store and k = 2 and enc = len_enc
      and q = "''q''" and qv = "[1]" and p = ends_filter and rs = "[]"]
  obtain found where
    f: "faiss_search (index eleven_store) [1] (min (2 * 5) (length (jobs eleven_store))) = Some found"
    and l: "length found = min (2 * 5) (length (jobs eleven_store))"
    and r: "search_similar_jobs len_enc eleven_store ''q'' 2 (Some ends_filter) [] =
             (if matches eleven_store (Some ends_filter) found = []
              then fallback_search eleven_store ''q'' 2 (Some ends_filter) []
              else take 2 (matches eleven_store (Some ends_filter) found))"
    by auto
  from f kk have "faiss_search (index eleven_store) [1] 10 = Some found"
    by (simp only:)
  then have fd: "found = [(1681, 0), (1764, 1), (1849, 2), (1936, 3), (2025, 4), (2116, 5),
      (2209, 6), (2304, 7), (2401, 8), (2500, 9)]"
    by (simp add: eleven_found)
  have m: "matches eleven_store (Some ends_filter) found =
             [(titled '''')\<lparr>similarity_score := Some (1 / 1682)\<rparr>]"
    by (simp add: fd matches_Cons matches_Nil candidate_def eleven_store_eq eleven_titles_def
        rejects_def ends_filter_def titled_def empty_job_def)
  from r m have "search_similar_jobs len_enc eleven_store ''q'' 2 (Some ends_filter) [] =
        take 2 (matches eleven_store (Some ends_filter) found)"
    by simp
  with ne q f l m kk show ?thesis by (intro conjI exI [of _ found]) simp_all
qed

section \<open>Saving and loading\<close>

lemma last_path_join: "b \<noteq> [] \<Longrightarrow> last (path_join a b) = last b"
  by (simp add: path_join_def)

lemma paths_differ:
  "path_join d (base @ ''.index'') \<noteq> path_join d (base @ ''.pkl'')"
proof
  assume "path_join d (base @ ''.index'') = path_join d (base @ ''.pkl'')"
  then have "last (path_join d (base @ ''.index'')) = last (path_join d (base @ ''.pkl''))"
    by simp
  then show False by (simp add: last_path_join)
qed

lemma load_after_save:
  assumes "save s fs writable base = (True, fs')"
  shows "load (init_store (vector_dir s)) fs' base = (True, s)"
proof -
  let ?ip = "path_join (vector_dir s) (base @ ''.index'')"
  let ?dp = "path_join (vector_dir s) (base @ ''.pkl'')"
  from assms have fs': "fs' = fs(?ip \<mapsto> IndexFile (index s), ?dp \<mapsto> DataFile (jobs s) (job_ids_map s))"
    by (auto simp: save_def Let_def split: if_splits)
  have ne: "?ip \<noteq> ?dp" by (rule paths_differ)
  have i: "fs' ?ip = Some (IndexFile (index s))" using ne by (simp add: fs')
  have d: "fs' ?dp = Some (DataFile (jobs s) (job_ids_map s))" by (simp add: fs')
  show ?thesis
    by (simp add: load_def init_store_def i d read_index_def pickle_load_def)
qed

text \<open>
  Claim C8. When \<open>save\<close> succeeds, \<open>load\<close> of the same name into a new store of the
  same directory succeeds and yields the saved store: the same records in the same
  number, and for every query, \<open>k\<close>, filter and random choices the same search
  results with the same scores.
\<close>

theorem C8_save_load_round_trip:
  assumes "save s fs writable base = (True, fs')"
  shows "load (init_store (vector_dir s)) fs' base = (True, s) \<and>
         length (jobs (snd (load (init_store (vector_dir s)) fs' base))) = length (jobs s) \<and>
         search_similar_jobs enc (snd (load (init_store (vector_dir s)) fs' base)) q k f rs =
           search_similar_jobs enc s q k f rs \<and>
         map get_score (search_similar_jobs enc (snd (load (init_store (vector_dir s)) fs' base)) q k f rs) =
           map get_score (search_similar_jobs enc s q k f rs)"
  by (simp add: load_after_save [OF assms])

theorem C8_save_load_round_trip_witness:
  "save one_store Map.empty (\<lambda>p. True) ''snap'' =
     (True, [''vs/snap.index'' \<mapsto> IndexFile [[47]],
             ''vs/snap.pkl'' \<mapsto> DataFile [nurse_job] [0 \<mapsto> 0]]) \<and>
   load (init_store ''vs'')
     [''vs/snap.index'' \<mapsto> IndexFile [[47]], ''vs/snap.pkl'' \<mapsto> DataFile [nurse_job] [0 \<mapsto> 0]]
     ''snap'' = (True, one_store) \<and>
   jobs one_store \<noteq> []"
proof -
  have sv: "save one_store Map.empty (\<lambda>p. True) ''snap'' =
     (True, [''vs/snap.index'' \<mapsto> IndexFile [[47]],
             ''vs/snap.pkl'' \<mapsto> DataFile [nurse_job] [0 \<mapsto> 0]])"
    by (simp add: save_def one_store_eq path_join_def)
  have vd: "vector_dir one_store = ''vs''" by (simp add: one_store_eq)
  from C8_save_load_round_trip [OF sv, of no_x_enc "''x''" 1 None "[]"]
  have "load (init_store ''vs'')
     [''vs/snap.index'' \<mapsto> IndexFile [[47]], ''vs/snap.pkl'' \<mapsto> DataFile [nurse_job] [0 \<mapsto> 0]]
     ''snap'' = (True, one_store)"
    by (simp add: vd)
  moreover have "jobs one_store \<noteq> []" by (simp add: one_store_eq)
  ultimately show ?thesis using sv by simp
qed

section \<open>Duplicates by URL\<close>

lemma is_duplicate_job_empty:
  "field_lower (title j1) = [] \<or> field_lower (title j2) = [] \<or>
   field_lower (company j1) = [] \<or> field_lower (company j2) = [] \<Longrightarrow> \<not> is_duplicate_job j1 j2"
  by (auto simp: is_duplicate_job_def Let_def)

lemma is_duplicate_job_url:
  "field_lower (title j1) \<noteq> [] \<Longrightarrow> field_lower (title j2) \<noteq> [] \<Longrightarrow>
   field_lower (company j1) \<noteq> [] \<Longrightarrow> field_lower (company j2) \<noteq> [] \<Longrightarrow>
   field_lower (redirect_url j1) \<noteq> [] \<Longrightarrow>
   field_lower (redirect_url j1) = field_lower (redirect_url j2) \<Longrightarrow> is_duplicate_job j1 j2"
  by (simp add: is_duplicate_job_def Let_def)

lemma posting_fields:
  "field_lower (title (posting t c u)) = lower t"
  "field_lower (company (posting t c u)) = lower c"
  "field_lower (redirect_url (posting t c u)) = lower u"
  "field_lower (location (posting t c u)) = []"
  by (simp_all add: posting_def empty_job_def field_lower_def)

lemma lower_Nil_iff: "lower s = [] \<longleftrightarrow> s = []"
  by (simp add: lower_def)

lemma posting_duplicate:
  "t1 \<noteq> [] \<Longrightarrow> t2 \<noteq> [] \<Longrightarrow> c1 \<noteq> [] \<Longrightarrow> c2 \<noteq> [] \<Longrightarrow> u \<noteq> [] \<Longrightarrow>
   is_duplicate_job (posting t1 c1 u) (posting t2 c2 u)"
  by (rule is_duplicate_job_url) (simp_all add: posting_fields lower_Nil_iff)

text \<open>
  Claim C7, as stated, fails: two records with the same non-empty URL, one of which
  has no title and no company, are not judged duplicates; nor is a record without
  title a duplicate of itself.
\<close>

theorem C7_url_criterion_counterexample:
  "redirect_url url_only_job = Some (PStr ''https://x.io/1'') \<and>
   redirect_url (posting ''Dev'' ''Acme'' ''https://x.io/1'') = Some (PStr ''https://x.io/1'') \<and>
   \<not> is_duplicate_job url_only_job (posting ''Dev'' ''Acme'' ''https://x.io/1'') \<and>
   \<not> is_duplicate_job (posting ''Dev'' ''Acme'' ''https://x.io/1'') url_only_job \<and>
   \<not> is_duplicate_job url_only_job url_only_job"
proof -
  have "field_lower (title url_only_job) = []"
    by (simp add: url_only_job_def empty_job_def field_lower_def)
  then have "\<not> is_duplicate_job url_only_job j" "\<not> is_duplicate_job j url_only_job" for j
    by (simp_all add: is_duplicate_job_empty)
  then show ?thesis
    by (simp add: url_only_job_def posting_def empty_job_def)
qed

text \<open>
  Claim C7, amended. For two records whose URLs are non-empty and equal (after
  lowercasing, so in particular when identical), \<open>is_duplicate_job\<close> judges them
  duplicates exactly when both titles and both companies are non-empty; it does so
  whatever those titles and companies are, and whatever the locations. A title or
  company that is absent, \<open>None\<close> or empty on either side makes the result false
  before the URLs are compared.
\<close>

theorem C7_url_duplicates:
  assumes "field_lower (redirect_url j1) \<noteq> []"
    and "field_lower (redirect_url j1) = field_lower (redirect_url j2)"
  shows "is_duplicate_job j1 j2 \<longleftrightarrow>
           field_lower (title j1) \<noteq> [] \<and> field_lower (title j2) \<noteq> [] \<and>
           field_lower (company j1) \<noteq> [] \<and> field_lower (company j2) \<noteq> []"
  using assms is_duplicate_job_empty [of j1 j2] is_duplicate_job_url [of j1 j2] by blast

theorem C7_url_duplicates_witness:
  "field_lower (redirect_url (posting ''Dev'' ''Acme'' ''https://x.io/1'')) \<noteq> [] \<and>
   field_lower (redirect_url (posting ''Dev'' ''Acme'' ''https://x.io/1'')) =
     field_lower (redirect_url (posting ''Nurse'' ''Clinic'' ''HTTPS://X.IO/1'')) \<and>
   is_duplicate_job (posting ''Dev'' ''Acme'' ''https://x.io/1'')
     (posting ''Nurse'' ''Clinic'' ''HTTPS://X.IO/1'') \<and>
   field_lower (redirect_url url_only_job) =
     field_lower (redirect_url (posting ''Dev'' ''Acme'' ''https://x.io/1'')) \<and>
   \<not> is_duplicate_job (posting ''Dev'' ''Acme'' ''https://x.io/1'') url_only_job"
proof -
  have u: "field_lower (redirect_url (posting ''Dev'' ''Acme'' ''https://x.io/1'')) \<noteq> []"
    by (simp add: posting_fields lower_Nil_iff)
  have e: "field_lower (redirect_url (posting ''Dev'' ''Acme'' ''https://x.io/1'')) =
           field_lower (redirect_url (posting ''Nurse'' ''Clinic'' ''HTTPS://X.IO/1''))"
    by (simp add: posting_fields lower_def lower_char_def)
  have p: "field_lower (redirect_url (posting ''Dev'' ''Acme'' ''https://x.io/1'')) = ''https://x.io/1''"
    by (simp add: posting_fields lower_def lower_char_def)
  have q: "field_lower (redirect_url url_only_job) = ''https://x.io/1''"
    by (simp add: url_only_job_def empty_job_def field_lower_def lower_def lower_char_def)
  from p q have e2: "field_lower (redirect_url (posting ''Dev'' ''Acme'' ''https://x.io/1'')) =
            field_lower (redirect_url url_only_job)"
    by simp
  have t: "field_lower (title url_only_job) = []"
    by (simp add: url_only_job_def empty_job_def field_lower_def)
  from C7_url_duplicates [OF u e]
  have a: "is_duplicate_job (posting ''Dev'' ''Acme'' ''https://x.io/1'')
     (posting ''Nurse'' ''Clinic'' ''HTTPS://X.IO/1'')"
    by (simp add: posting_fields lower_Nil_iff)
  from C7_url_duplicates [OF u e2] t
  have b: "\<not> is_duplicate_job (posting ''Dev'' ''Acme'' ''https://x.io/1'') url_only_job"
    by simp
  from u e a e2 b show ?thesis by simp
qed

section \<open>What deduplication guarantees\<close>

lemma readmit_eq:
  "readmit m ps u = u @ take (max 1 (m - length u)) (first_new u ps)"
proof (induction ps arbitrary: u)
  case Nil
  show ?case by simp
next
  case (Cons p ps)
  show ?case
  proof (cases "p \<in> set u")
    case True
    with Cons.IH [of u] show ?thesis by simp
  next
    case new: False
    show ?thesis
    proof (cases "length (u @ [p]) \<ge> m")
      case True
      then have "max 1 (m - length u) = 1" by simp
      with new True show ?thesis by simp
    next
      case False
      then have "m - length u = Suc (m - length (u @ [p]))" "1 \<le> m - length (u @ [p])"
        by simp_all
      with new False Cons.IH [of "u @ [p]"] show ?thesis by (simp add: max_def)
    qed
  qed
qed

lemma readmit_mono: "set u \<subseteq> set (readmit m ps u)"
  by (simp add: readmit_eq)

lemma set_first_new: "set (first_new seen ps) \<subseteq> set ps"
  by (induction ps arbitrary: seen) auto

lemma readmit_subset: "set (readmit m ps u) \<subseteq> set u \<union> set ps"
  using set_first_new [of u ps] by (auto simp: readmit_eq dest!: in_set_takeD)

lemma readmit_reach: "m \<le> length (readmit m ps u) \<or> set ps \<subseteq> set (readmit m ps u)"
proof (induction ps arbitrary: u)
  case Nil
  show ?case by simp
next
  case (Cons p ps)
  show ?case
  proof (cases "p \<in> set u")
    case True
    with Cons.IH [of u] readmit_mono [of u m ps] show ?thesis by auto
  next
    case new: False
    show ?thesis
    proof (cases "length (u @ [p]) \<ge> m")
      case True
      with new show ?thesis by simp
    next
      case False
      with new Cons.IH [of "u @ [p]"] readmit_mono [of "u @ [p]" m ps] show ?thesis by auto
    qed
  qed
qed

lemma dedup_loop_Cons:
  "dedup_loop L m (j # todo) u = dedup_loop L m todo (dedup_step L m j u)"
  by (simp add: Let_def dedup_step_def)

lemma step_post:
  "(m \<le> length (dedup_step L m j u) \<or>
    \<not> too_many_removed (length L) (length (dedup_step L m j u)) \<or>
    set L \<subseteq> set (dedup_step L m j u)) \<and>
   set u \<subseteq> set (dedup_step L m j u) \<and> dedup_step L m j u \<noteq> [] \<and>
   set (dedup_step L m j u) \<subseteq> set u \<union> {j} \<union> set L"
proof -
  define u1 where "u1 = (if list_ex (is_duplicate_job j) u then u else u @ [j])"
  have a: "set u \<subseteq> set u1" "u1 \<noteq> []" "set u1 \<subseteq> set u \<union> {j}"
    by (auto simp: u1_def list_ex_iff)
  show ?thesis
  proof (cases "length u1 < m \<and> too_many_removed (length L) (length u1)")
    case True
    then have u2: "dedup_step L m j u = readmit m L u1"
      by (simp add: dedup_step_def u1_def)
    from readmit_mono [of u1 m L] a have "set u \<subseteq> set (readmit m L u1)" "readmit m L u1 \<noteq> []"
      by auto
    moreover from readmit_subset [of m L u1] a have "set (readmit m L u1) \<subseteq> set u \<union> {j} \<union> set L"
      by auto
    moreover note readmit_reach [of m L u1]
    ultimately show ?thesis unfolding u2 by blast
  next
    case False
    then have u2: "dedup_step L m j u = u1"
      by (auto simp: dedup_step_def u1_def Let_def)
    from False have "m \<le> length u1 \<or> \<not> too_many_removed (length L) (length u1)" by auto
    with a show ?thesis unfolding u2 by auto
  qed
qed

lemma dedup_loop_mono: "set u \<subseteq> set (dedup_loop L m todo u)"
proof (induction todo arbitrary: u)
  case Nil
  show ?case by simp
next
  case (Cons j todo)
  have "set u \<subseteq> set (dedup_step L m j u)"
    using step_post [of m L j u] by blast
  also note Cons.IH
  finally show ?case by (simp only: dedup_loop_Cons)
qed

lemma dedup_loop_subset:
  "set todo \<subseteq> set L \<Longrightarrow> set (dedup_loop L m todo u) \<subseteq> set u \<union> set L"
proof (induction todo arbitrary: u)
  case Nil
  show ?case by simp
next
  case (Cons j todo)
  from Cons.prems have j: "j \<in> set L" and t: "set todo \<subseteq> set L" by simp_all
  have "set (dedup_step L m j u) \<subseteq> set u \<union> {j} \<union> set L"
    using step_post [of m L j u] by blast
  with j have "set (dedup_step L m j u) \<subseteq> set u \<union> set L" by auto
  with Cons.IH [OF t, of "dedup_step L m j u"]
  have "set (dedup_loop L m todo (dedup_step L m j u)) \<subseteq> set u \<union> set L"
    by blast
  then show ?case by (simp only: dedup_loop_Cons)
qed


lemma too_many_3_1: "\<not> too_many_removed (Suc (Suc (Suc 0))) (Suc 0)"
proof -
  have "\<not> too_many_removed 3 1"
    by (simp add: too_many_removed_def len_times_0_7_def round_to_53_def)
  then show ?thesis by (simp add: numeral_3_eq_3)
qed

lemma too_many_4_1: "too_many_removed (Suc (Suc (Suc (Suc 0)))) (Suc 0)"
proof -
  have "too_many_removed 4 1"
    by (simp add: too_many_removed_def len_times_0_7_def round_to_53_def)
  then show ?thesis by (simp add: numeral_eq_Suc)
qed

lemma posting_eq_iff: "posting t c u = posting t' c' u' \<longleftrightarrow> t = t' \<and> c = c' \<and> u = u'"
  by (auto simp: posting_def empty_job_def)

lemma three_postings:
  "remove_duplicate_jobs
     [posting ''A'' ''Acme'' ''https://x.io/1'', posting ''B'' ''Acme'' ''https://x.io/1'',
      posting ''C'' ''Acme'' ''https://x.io/1''] 2 =
   [posting ''A'' ''Acme'' ''https://x.io/1'']"
  by (simp add: remove_duplicate_jobs_def Let_def posting_duplicate too_many_3_1)

lemma four_copies:
  "remove_duplicate_jobs
     [posting ''A'' ''Acme'' ''https://x.io/1'', posting ''A'' ''Acme'' ''https://x.io/1'',
      posting ''A'' ''Acme'' ''https://x.io/1'', posting ''A'' ''Acme'' ''https://x.io/1''] 2 =
   [posting ''A'' ''Acme'' ''https://x.io/1'']"
  by (simp add: remove_duplicate_jobs_def Let_def posting_duplicate too_many_4_1)

lemma dedup_step_extends:
  "\<exists>zs. dedup_step L m e u = (if list_ex (is_duplicate_job e) u then u else u @ [e]) @ zs"
  by (auto simp: dedup_step_def Let_def readmit_eq)

lemma length_dedup_step: "length u \<le> length (dedup_step L m e u)"
proof -
  obtain zs where "dedup_step L m e u = (if list_ex (is_duplicate_job e) u then u else u @ [e]) @ zs"
    using dedup_step_extends by blast
  then show ?thesis by (simp split: if_splits)
qed

lemma length_dedup_loop: "length u \<le> length (dedup_loop L m todo u)"
proof (induction todo arbitrary: u)
  case Nil
  show ?case by simp
next
  case (Cons j todo)
  have "length u \<le> length (dedup_step L m j u)" by (rule length_dedup_step)
  also have "\<dots> \<le> length (dedup_loop L m todo (dedup_step L m j u))" by (rule Cons.IH)
  finally show ?case by (simp only: dedup_loop_Cons)
qed

text \<open>
  When the guarantee does hold: if the test of the re-admission step is true with one
  record kept (as it is for every input of four records or more), the output has
  \<open>min_results\<close> records or holds every record of the input.
\<close>

lemma dedup_minimum_if_gate_open:
  assumes "length L > m" and "too_many_removed (length L) (Suc 0)"
  shows "m \<le> length (remove_duplicate_jobs L m) \<or> set L \<subseteq> set (remove_duplicate_jobs L m)"
proof -
  from assms(1) obtain e rest where L: "L = e # rest" by (cases L) auto
  with assms(1) have eq: "remove_duplicate_jobs L m = dedup_loop L m rest (dedup_step L m e [])"
    by (simp add: remove_duplicate_jobs_def dedup_loop_Cons del: dedup_loop.simps)
  have first: "m \<le> length (dedup_step L m e []) \<or> set L \<subseteq> set (dedup_step L m e [])"
  proof (cases "Suc 0 < m")
    case True
    with assms(2) have "dedup_step L m e [] = readmit m L [e]"
      by (simp add: dedup_step_def)
    with readmit_reach [of m L "[e]"] show ?thesis by simp
  next
    case False
    then have "m \<le> length [e]" by simp
    also have "\<dots> \<le> length (dedup_step L m e [])"
      using step_post [of m L e "[]"] by (cases "dedup_step L m e []") auto
    finally show ?thesis by simp
  qed
  from length_dedup_loop [of "dedup_step L m e []" L m rest]
    dedup_loop_mono [of "dedup_step L m e []" L m rest] first
  show ?thesis unfolding eq by auto
qed

text \<open>
  Claim C3. The guarantee is the one the docstring of \<open>remove_duplicate_jobs\<close> gives
  (at least \<open>min_results\<close> records are returned if available), and the code does not
  meet it. Three different postings that are duplicates of each other (same URL) with
  \<open>min_results = 2\<close> leave one record, although three are available: after each of
  them two of three inputs are missing from the output, which is not more than
  \<open>3 * 0.7\<close>, so the re-admission step never runs.
\<close>

theorem C3_dedup_below_minimum:
  "length [posting ''A'' ''Acme'' ''https://x.io/1'', posting ''B'' ''Acme'' ''https://x.io/1'',
           posting ''C'' ''Acme'' ''https://x.io/1''] > 2 \<and>
   distinct [posting ''A'' ''Acme'' ''https://x.io/1'', posting ''B'' ''Acme'' ''https://x.io/1'',
             posting ''C'' ''Acme'' ''https://x.io/1''] \<and>
   remove_duplicate_jobs
     [posting ''A'' ''Acme'' ''https://x.io/1'', posting ''B'' ''Acme'' ''https://x.io/1'',
      posting ''C'' ''Acme'' ''https://x.io/1''] 2 =
   [posting ''A'' ''Acme'' ''https://x.io/1''] \<and>
   \<not> too_many_removed 3 1 \<and> \<not> too_many_removed 3 2"
proof -
  have "\<not> too_many_removed 3 1" "\<not> too_many_removed 3 2"
    by (simp_all add: too_many_removed_def len_times_0_7_def round_to_53_def)
  then show ?thesis
    using three_postings by (simp add: posting_eq_iff)
qed

section \<open>The unfiltered search of a well-formed store\<close>








section \<open>Lists without duplicates\<close>








section \<open>Deduplication of a list without duplicates\<close>





section \<open>The stages of the pipeline keep what deduplication reads\<close>









section \<open>The number of results of the pipeline\<close>


lemma identity_mapped_add:
  "identity_mapped s \<Longrightarrow> identity_mapped (snd (add_jobs_from_dataframe enc s b))"
  by (auto simp: identity_mapped_def add_jobs_closed)

lemma identity_mapped_add_batches:
  "identity_mapped s \<Longrightarrow> identity_mapped (add_batches enc s bs)"
  unfolding add_batches_def
  by (induction bs arbitrary: s) (simp_all add: identity_mapped_add)








section \<open>A store of four equal records\<close>















section \<open>The sample records are not used when the store has enough records\<close>









section \<open>The number of results of a request\<close>










end
